theory Spec2Isabelle
  imports Complex_Main
begin

section \<open>Errors\<close>

text \<open>
  A JavaScript \<^verbatim>\<open>Error\<close> object, reduced to the two fields the code reads:
  its \<^verbatim>\<open>name\<close> (read by \<^verbatim>\<open>mapErrorToCode\<close>) and its \<^verbatim>\<open>message\<close>.
  \<^verbatim>\<open>new Error(m)\<close> has the name \<^verbatim>\<open>Error\<close>. A \<^verbatim>\<open>throw\<close> is the
  left injection of a sum.
\<close>

datatype js_error = JsError (error_name: string) (error_message: string)

definition new_Error :: "string \<Rightarrow> js_error" where
  "new_Error m = JsError ''Error'' m"

section \<open>Security framework\<close>

subsection \<open>Data\<close>

record cryptographic_signature =
  algorithm :: string
  publicKey :: string
  signature :: string

record operation_context =
  userId :: "string option"
  sessionId :: string
  correlationId :: string

text \<open>
  \<^verbatim>\<open>EnhancedMessage\<close>: the two optional extensions that
  \<^verbatim>\<open>authenticateRequest\<close> destructures, and the legacy method name. An absent
  optional field is \<open>None\<close>; a present signature is an object, hence truthy.
\<close>

record enhanced_message =
  msg_method :: "string option"
  msg_signature :: "cryptographic_signature option"
  msg_context :: "operation_context option"

datatype action_type = Read | Write | Execute | Delete

record action =
  type :: action_type

record permission =
  resource :: string
  actions :: "action list"
  auditRequired :: bool

datatype risk_level = Low | Medium | High | Critical

record authentication_result =
  authenticated :: bool
  permissions :: "string list"
  riskLevel :: risk_level
  requiresAudit :: bool

record audit_entry =
  timestamp :: string
  event :: string
  details_error :: string
  details_context :: "operation_context option"

datatype sandbox_type = Container | Vm | Wasm | Process

record sandbox_configuration =
  config_id :: string
  sandbox_type :: sandbox_type
  sandbox_resources :: "(string \<times> nat) list"

text \<open>
  \<^verbatim>\<open>new SandboxEnvironment(config)\<close> followed by \<^verbatim>\<open>initialize()\<close>: the
  environment keeps the configuration it was built from.
\<close>

record sandbox_environment =
  config :: sandbox_configuration
  initialized :: bool

text \<open>The private fields of \<^verbatim>\<open>SecurityFramework\<close>.\<close>

record security_framework =
  sf_permissions :: "string \<rightharpoonup> permission list"
  sandboxes :: "string \<rightharpoonup> sandbox_environment"
  auditLog :: "audit_entry list"

subsection \<open>calculateRiskLevel\<close>

definition calculateRiskLevel :: "permission list \<Rightarrow> risk_level" where
  "calculateRiskLevel perms =
     (let hasWriteAccess =
            list_ex (\<lambda>p. list_ex (\<lambda>a. type a = Write \<or> type a = Delete) (actions p)) perms;
          hasExecuteAccess =
            list_ex (\<lambda>p. list_ex (\<lambda>a. type a = Execute) (actions p)) perms
      in if hasExecuteAccess then Critical
         else if hasWriteAccess then High
         else Medium)"

subsection \<open>authenticateRequest\<close>

text \<open>
  The body of the \<^verbatim>\<open>try\<close> block. \<^verbatim>\<open>verifySignature\<close> calls the platform's
  crypto library and \<^verbatim>\<open>getPermissions\<close> is not defined in the class, so both
  are parameters; either may throw.
\<close>

definition authenticate_try ::
  "(cryptographic_signature \<Rightarrow> enhanced_message \<Rightarrow> js_error + bool) \<Rightarrow>
   (string option \<Rightarrow> js_error + permission list) \<Rightarrow>
   cryptographic_signature \<Rightarrow> enhanced_message \<Rightarrow> js_error + authentication_result" where
  "authenticate_try verifySignature getPermissions sig message =
     (case verifySignature sig message of
        Inl e \<Rightarrow> Inl e
      | Inr isValid \<Rightarrow>
          if \<not> isValid then Inl (new_Error ''Invalid signature'')
          else
            (case getPermissions (case msg_context message of None \<Rightarrow> None | Some c \<Rightarrow> userId c) of
               Inl e \<Rightarrow> Inl e
             | Inr perms \<Rightarrow>
                 Inr \<lparr>authenticated = True,
                      permissions = map resource perms,
                      riskLevel = calculateRiskLevel perms,
                      requiresAudit = list_ex auditRequired perms\<rparr>))"

text \<open>
  \<^verbatim>\<open>authenticateRequest\<close>, with the clock reading \<open>now\<close> that stamps the audit
  entry. The result pairs the returned value or thrown error with the framework after the
  call.
\<close>

definition authenticateRequest ::
  "(cryptographic_signature \<Rightarrow> enhanced_message \<Rightarrow> js_error + bool) \<Rightarrow>
   (string option \<Rightarrow> js_error + permission list) \<Rightarrow> string \<Rightarrow>
   security_framework \<Rightarrow> enhanced_message \<Rightarrow>
   (js_error + authentication_result) \<times> security_framework" where
  "authenticateRequest verifySignature getPermissions now sf message =
     (case msg_signature message of
        None \<Rightarrow>
          (Inr \<lparr>authenticated = True,
                permissions = [''read:public''],
                riskLevel = Medium,
                requiresAudit = True\<rparr>, sf)
      | Some sig \<Rightarrow>
          (case authenticate_try verifySignature getPermissions sig message of
             Inr r \<Rightarrow> (Inr r, sf)
           | Inl error \<Rightarrow>
               (Inl error,
                sf\<lparr>auditLog := auditLog sf @
                      [\<lparr>timestamp = now,
                        event = ''authentication_failed'',
                        details_error = error_message error,
                        details_context = msg_context message\<rparr>]\<rparr>)))"

subsection \<open>createSandbox\<close>

text \<open>
  \<^verbatim>\<open>sandbox.initialize()\<close> belongs to the isolation backend; \<open>initialize\<close> gives
  the error it throws, if any.
\<close>

definition createSandbox ::
  "(sandbox_configuration \<Rightarrow> js_error option) \<Rightarrow> security_framework \<Rightarrow>
   sandbox_configuration \<Rightarrow> (js_error + string) \<times> security_framework" where
  "createSandbox initialize sf cfg =
     (let sandbox = \<lparr>config = cfg, initialized = False\<rparr>
      in case initialize cfg of
           Some e \<Rightarrow> (Inl e, sf)
         | None \<Rightarrow>
             (Inr (config_id cfg),
              sf\<lparr>sandboxes := (sandboxes sf)(config_id cfg \<mapsto> sandbox\<lparr>initialized := True\<rparr>)\<rparr>))"

subsection \<open>destroySandbox\<close>

text \<open>
  Modelled from the spec: \<^verbatim>\<open>destroySandbox\<close> is called by the example workflow
  (in the \<^verbatim>\<open>finally\<close> blocks of \<^verbatim>\<open>executeSecurely\<close> and
  \<^verbatim>\<open>executeInSandbox\<close>) but the class \<^verbatim>\<open>SecurityFramework\<close> does not
  define it. The specification: destroying a registered sandbox removes it from the
  registry; destroying an already-destroyed or unknown id is a no-op, not an error.
\<close>

definition destroySandbox ::
  "security_framework \<Rightarrow> string \<Rightarrow> (js_error + unit) \<times> security_framework" where
  "destroySandbox sf sandboxId =
     (case sandboxes sf sandboxId of
        None \<Rightarrow> (Inr (), sf)
      | Some sandbox \<Rightarrow> (Inr (), sf\<lparr>sandboxes := (sandboxes sf)(sandboxId := None)\<rparr>))"

section \<open>JavaScript numbers\<close>

text \<open>
  The retry strategy carries JavaScript numbers, which are IEEE 754 double-precision
  values: the not-a-number value, the two infinities, and the finite doubles, which are
  rationals. The two zeros are not told apart (the code never divides). Every
  arithmetic operation returns the double nearest to the exact result, a tie going to
  the even significand, and an infinity when that result is out of range.
\<close>

datatype js_number = Fin rat | PosInfinity | NegInfinity | NaN

text \<open>The number of binary digits of a positive integer.\<close>

function bit_length :: "int \<Rightarrow> nat" where
  "bit_length n = (if n \<le> 0 then 0 else Suc (bit_length (n div 2)))"
  by pat_completeness auto
termination
  by (relation "measure nat") auto

declare bit_length.simps [simp del]

definition pow2 :: "int \<Rightarrow> rat" where
  "pow2 e = (if 0 \<le> e then 2 ^ nat e else 1 / 2 ^ nat (- e))"

text \<open>For \<open>x > 0\<close>, the integer \<open>k\<close> with \<open>2\<^sup>k \<le> x < 2\<^bsup>k+1\<^esup>\<close>.\<close>

definition ilog2 :: "rat \<Rightarrow> int" where
  "ilog2 x =
     (if 1 \<le> x then int (bit_length \<lfloor>x\<rfloor>) - 1
      else - int (bit_length (\<lceil>1 / x\<rceil> - 1)))"

definition round_half_even :: "rat \<Rightarrow> int" where
  "round_half_even q =
     (let f = \<lfloor>q\<rfloor>; d = q - of_int f
      in if d < 1 / 2 then f
         else if 1 / 2 < d then f + 1
         else if even f then f else f + 1)"

text \<open>
  Rounding to the nearest double: a significand of 53 binary digits, the least exponent
  -1074 (subnormal numbers), and overflow to an infinity from \<open>2\<^bsup>1024\<^esup>\<close>.
\<close>

definition to_double :: "rat \<Rightarrow> js_number" where
  "to_double x =
     (if x = 0 then Fin 0
      else
        let e = max (ilog2 \<bar>x\<bar> - 52) (- 1074);
            y = of_int (round_half_even (x / pow2 e)) * pow2 e
        in if 2 ^ 1024 \<le> \<bar>y\<bar> then (if 0 < x then PosInfinity else NegInfinity)
           else Fin y)"

text \<open>Multiplication, addition and subtraction of numbers.\<close>

fun js_sign :: "js_number \<Rightarrow> int" where
  "js_sign (Fin a) = (if a = 0 then 0 else if 0 < a then 1 else - 1)"
| "js_sign PosInfinity = 1"
| "js_sign NegInfinity = - 1"
| "js_sign NaN = 0"

fun js_mul :: "js_number \<Rightarrow> js_number \<Rightarrow> js_number" where
  "js_mul (Fin a) (Fin b) = to_double (a * b)"
| "js_mul NaN y = NaN"
| "js_mul x NaN = NaN"
| "js_mul x y =
     (let s = js_sign x * js_sign y
      in if s = 0 then NaN else if 0 < s then PosInfinity else NegInfinity)"

fun js_add :: "js_number \<Rightarrow> js_number \<Rightarrow> js_number" where
  "js_add (Fin a) (Fin b) = to_double (a + b)"
| "js_add NaN y = NaN"
| "js_add x NaN = NaN"
| "js_add PosInfinity NegInfinity = NaN"
| "js_add NegInfinity PosInfinity = NaN"
| "js_add PosInfinity y = PosInfinity"
| "js_add x PosInfinity = PosInfinity"
| "js_add NegInfinity y = NegInfinity"
| "js_add x NegInfinity = NegInfinity"

fun js_neg :: "js_number \<Rightarrow> js_number" where
  "js_neg (Fin a) = Fin (- a)"
| "js_neg PosInfinity = NegInfinity"
| "js_neg NegInfinity = PosInfinity"
| "js_neg NaN = NaN"

definition js_sub :: "js_number \<Rightarrow> js_number \<Rightarrow> js_number" where
  "js_sub x y = js_add x (js_neg y)"

text \<open>\<^verbatim>\<open>x <= y\<close> and \<^verbatim>\<open>x === y\<close> on numbers: any comparison with NaN is false.\<close>

fun js_le :: "js_number \<Rightarrow> js_number \<Rightarrow> bool" where
  "js_le (Fin a) (Fin b) = (a \<le> b)"
| "js_le NaN y = False"
| "js_le x NaN = False"
| "js_le NegInfinity y = True"
| "js_le x PosInfinity = True"
| "js_le x y = False"

definition js_strict_eq :: "js_number \<Rightarrow> js_number \<Rightarrow> bool" where
  "js_strict_eq x y = (x = y \<and> x \<noteq> NaN)"

text \<open>
  \<^verbatim>\<open>Math.pow(2, y)\<close>. For an integer \<open>y\<close> it is the power of two, rounded;
  for any other finite \<open>y\<close> the language leaves the result to the implementation's
  approximation, which is the parameter \<open>pow_approx\<close>.
\<close>

fun Math_pow2 :: "(rat \<Rightarrow> js_number) \<Rightarrow> js_number \<Rightarrow> js_number" where
  "Math_pow2 pow_approx (Fin r) =
     (if of_int \<lfloor>r\<rfloor> = r then
        (if 1024 \<le> r then PosInfinity
         else if r < - 1075 then Fin 0
         else to_double (pow2 \<lfloor>r\<rfloor>))
      else pow_approx r)"
| "Math_pow2 pow_approx PosInfinity = PosInfinity"
| "Math_pow2 pow_approx NegInfinity = Fin 0"
| "Math_pow2 pow_approx NaN = NaN"

section \<open>Error handler: retry with backoff\<close>

text \<open>
  \<^verbatim>\<open>RecoveryStrategy\<close>, as \<^verbatim>\<open>attemptRecovery\<close> and
  \<^verbatim>\<open>retryWithBackoff\<close> read it. \<^verbatim>\<open>operation\<close> is a closure with
  effects: it takes the state of whatever it acts on and returns the new state with its
  outcome.
\<close>

record 's recovery_strategy =
  strategy_type :: string
  strategy_maxAttempts :: "js_number option"
  strategy_baseDelay :: "js_number option"
  strategy_backoffStrategy :: "string option"
  strategy_operation :: "'s \<Rightarrow> (js_error + unit) \<times> 's"

text \<open>
  What the retry loop does, in order: a call of the operation, or a call of
  \<^verbatim>\<open>sleep\<close> with the number of milliseconds it is given.
\<close>

datatype retry_event = Attempt | Sleep js_number

text \<open>\<^verbatim>\<open>calculateBackoffDelay\<close>.\<close>

definition calculateBackoffDelay ::
  "(rat \<Rightarrow> js_number) \<Rightarrow> js_number \<Rightarrow> js_number \<Rightarrow> string option \<Rightarrow> js_number" where
  "calculateBackoffDelay pow_approx attempt baseDelay strategy =
     (if strategy = Some ''exponential''
      then js_mul baseDelay (Math_pow2 pow_approx (js_sub attempt (Fin 1)))
      else if strategy = Some ''linear'' then js_mul baseDelay attempt
      else baseDelay)"

text \<open>
  \<^verbatim>\<open>x || d\<close> on an optional number: the default replaces an absent value, 0 and
  NaN.
\<close>

definition or_default :: "js_number option \<Rightarrow> js_number \<Rightarrow> js_number" where
  "or_default x d =
     (case x of None \<Rightarrow> d | Some v \<Rightarrow> if v = Fin 0 \<or> v = NaN then d else v)"

text \<open>
  The \<^verbatim>\<open>for\<close> loop of \<^verbatim>\<open>retryWithBackoff\<close>, from the current
  \<open>attempt\<close>. The loop need not end (with \<^verbatim>\<open>maxAttempts = Infinity\<close> and an
  operation that always fails it does not): \<open>None\<close> is the loop that never returns.
\<close>

partial_function (option) retry_loop ::
  "(rat \<Rightarrow> js_number) \<Rightarrow> 's recovery_strategy \<Rightarrow> js_number \<Rightarrow> js_number \<Rightarrow> js_number \<Rightarrow>
   's \<Rightarrow> retry_event list \<Rightarrow> ((js_error + bool) \<times> 's \<times> retry_event list) option" where
  "retry_loop pow_approx strategy maxAttempts baseDelay attempt s tr =
     (if js_le attempt maxAttempts then
        (case strategy_operation strategy s of
           (Inr u, s') \<Rightarrow> Some (Inr True, s', tr @ [Attempt])
         | (Inl error, s') \<Rightarrow>
             if js_strict_eq attempt maxAttempts then Some (Inl error, s', tr @ [Attempt])
             else retry_loop pow_approx strategy maxAttempts baseDelay (js_add attempt (Fin 1)) s'
                    (tr @ [Attempt,
                           Sleep (calculateBackoffDelay pow_approx attempt baseDelay
                                    (strategy_backoffStrategy strategy))]))
      else Some (Inr False, s, tr))"

declare retry_loop.simps [code]

definition retryWithBackoff ::
  "(rat \<Rightarrow> js_number) \<Rightarrow> 's recovery_strategy \<Rightarrow> 's \<Rightarrow>
   ((js_error + bool) \<times> 's \<times> retry_event list) option" where
  "retryWithBackoff pow_approx strategy s =
     (let maxAttempts = or_default (strategy_maxAttempts strategy) (Fin 3);
          baseDelay = or_default (strategy_baseDelay strategy) (Fin 1000)
      in retry_loop pow_approx strategy maxAttempts baseDelay (Fin 1) s [])"

text \<open>
  \<^verbatim>\<open>attemptRecovery\<close>. \<^verbatim>\<open>executeFallback\<close> and
  \<^verbatim>\<open>rollbackToCheckpoint\<close> are not defined in the class and are parameters.
\<close>

definition attemptRecovery ::
  "(rat \<Rightarrow> js_number) \<Rightarrow>
   ('s recovery_strategy \<Rightarrow> 's \<Rightarrow> (js_error + bool) \<times> 's \<times> retry_event list) \<Rightarrow>
   ('s recovery_strategy \<Rightarrow> 's \<Rightarrow> (js_error + bool) \<times> 's \<times> retry_event list) \<Rightarrow>
   's recovery_strategy \<Rightarrow> 's \<Rightarrow> ((js_error + bool) \<times> 's \<times> retry_event list) option" where
  "attemptRecovery pow_approx executeFallback rollbackToCheckpoint strategy s =
     (if strategy_type strategy = ''retry'' then retryWithBackoff pow_approx strategy s
      else if strategy_type strategy = ''fallback'' then Some (executeFallback strategy s)
      else if strategy_type strategy = ''rollback'' then Some (rollbackToCheckpoint strategy s)
      else Some (Inr False, s, []))"

text \<open>The state the operation has reached after \<open>k\<close> calls, and the outcome of the call made there.\<close>

definition op_state :: "'s recovery_strategy \<Rightarrow> 's \<Rightarrow> nat \<Rightarrow> 's" where
  "op_state strategy s k = ((\<lambda>t. snd (strategy_operation strategy t)) ^^ k) s"

definition op_outcome :: "'s recovery_strategy \<Rightarrow> 's \<Rightarrow> nat \<Rightarrow> js_error + unit" where
  "op_outcome strategy s k = fst (strategy_operation strategy (op_state strategy s k))"

text \<open>
  The delay after the \<open>k\<close>-th failed attempt as the specification states it, in exact
  integer arithmetic: \<open>B \<times> 2\<^bsup>k-1\<^esup>\<close> for the exponential strategy, \<open>B \<times> k\<close> for
  the linear one, and \<open>B\<close> otherwise.
\<close>

definition exact_delay :: "int \<Rightarrow> string option \<Rightarrow> int \<Rightarrow> int" where
  "exact_delay B strategy k =
     (if strategy = Some ''exponential'' then B * 2 ^ nat (k - 1)
      else if strategy = Some ''linear'' then B * k
      else B)"

text \<open>The calls and sleeps of attempts \<open>a\<close> to \<open>b\<close>, each followed by its backoff sleep.\<close>

definition failed_rounds :: "int \<Rightarrow> string option \<Rightarrow> int \<Rightarrow> int \<Rightarrow> retry_event list" where
  "failed_rounds B strategy a b =
     concat (map (\<lambda>k. [Attempt, Sleep (Fin (of_int (exact_delay B strategy k)))]) [a..b])"

section \<open>Error handler: checkpoints\<close>

subsection \<open>Values and the object store\<close>

text \<open>
  \<^verbatim>\<open>createCheckpoint\<close> takes \<^verbatim>\<open>state: any\<close>. A JavaScript value is a
  primitive, a function, or a reference to an object; objects live in a store and are
  reached through references, so two values can share an object and an object can refer
  to itself. An object is its list of properties (an array has its indices as keys). The
  store is the list of the objects allocated so far: the address of an object is its
  position, and allocation appends.
\<close>

datatype js_value =
    VUndefined | VNull | VBool bool | VNum int | VStr string
  | VFun string
  | VRef nat

type_synonym js_object = "(string \<times> js_value) list"

type_synonym js_heap = "js_object list"

fun refs_of_value :: "js_value \<Rightarrow> nat list" where
  "refs_of_value (VRef a) = [a]"
| "refs_of_value v = []"

definition refs_of :: "js_object \<Rightarrow> nat list" where
  "refs_of ob = concat (map (\<lambda>(k, v). refs_of_value v) ob)"

text \<open>
  Every reference of the root value and of every object points into the store, as it
  does in a running program.
\<close>

definition well_formed :: "js_heap \<Rightarrow> js_value \<Rightarrow> bool" where
  "well_formed h v =
     (list_all (\<lambda>a. a < length h) (refs_of_value v) \<and>
      list_all (\<lambda>ob. list_all (\<lambda>a. a < length h) (refs_of ob)) h)"

subsection \<open>structuredClone\<close>

text \<open>
  \<^verbatim>\<open>structuredClone\<close> is the platform's structured-clone algorithm: it visits
  every object reachable from the value once, copies each into a fresh object, keeps
  sharing and cycles between the copies, and throws \<^verbatim>\<open>DataCloneError\<close> when it
  meets a function. \<open>reach\<close> is the traversal: the addresses of the objects reachable
  from the work list, in the order they are first met.
\<close>

function reach :: "js_heap \<Rightarrow> nat list \<Rightarrow> nat list \<Rightarrow> nat list" where
  "reach h [] visited = visited"
| "reach h (a # todo) visited =
     (if a \<in> set visited \<or> length h \<le> a then reach h todo visited
      else reach h (refs_of (h ! a) @ todo) (visited @ [a]))"
  by pat_completeness auto
termination
proof (relation "measures [\<lambda>(h, todo, visited). card ({..<length h} - set visited),
                           \<lambda>(h, todo, visited). length todo]", goal_cases)
  case 1
  show ?case by simp
next
  case (2 h a todo visited)
  show ?case by simp
next
  case (3 h a todo visited)
  have "a \<in> {..<length h} - set visited" using 3 by simp
  moreover have "{..<length h} - set (visited @ [a]) = ({..<length h} - set visited) - {a}"
    by auto
  moreover have "finite ({..<length h} - set visited)" by simp
  ultimately have "card ({..<length h} - set (visited @ [a])) < card ({..<length h} - set visited)"
    by (metis card_Diff1_less)
  then show ?case
    by (simp only: measures_less in_measures prod.case simp_thms)
qed

declare reach.simps [simp del]

fun index_of :: "nat \<Rightarrow> nat list \<Rightarrow> nat" where
  "index_of a [] = 0"
| "index_of a (x # xs) = (if x = a then 0 else Suc (index_of a xs))"

text \<open>
  The copy of the \<open>i\<close>-th reachable object is allocated at \<open>base + i\<close>; a reference
  to the original becomes a reference to the copy.
\<close>

fun relocate :: "nat \<Rightarrow> nat list \<Rightarrow> js_value \<Rightarrow> js_value" where
  "relocate base rs (VRef a) = VRef (base + index_of a rs)"
| "relocate base rs v = v"

definition copy_object :: "nat \<Rightarrow> nat list \<Rightarrow> js_object \<Rightarrow> js_object" where
  "copy_object base rs ob = map (\<lambda>(k, v). (k, relocate base rs v)) ob"

fun is_function :: "js_value \<Rightarrow> bool" where
  "is_function (VFun f) = True"
| "is_function v = False"

definition structuredClone :: "js_heap \<Rightarrow> js_value \<Rightarrow> js_error + js_value \<times> js_heap" where
  "structuredClone h v =
     (let rs = reach h (refs_of_value v) []
      in if is_function v \<or> list_ex (\<lambda>a. list_ex (\<lambda>(k, x). is_function x) (h ! a)) rs
         then Inl (JsError ''DataCloneError'' ''function could not be cloned'')
         else Inr (relocate (length h) rs v,
                   h @ map (\<lambda>a. copy_object (length h) rs (h ! a)) rs))"

subsection \<open>createCheckpoint\<close>

record checkpoint =
  checkpoint_id :: string
  checkpoint_timestamp :: string
  checkpoint_operation :: string
  state_snapshot :: js_value
  dependencies :: "string list"

text \<open>
  The checkpoint table of \<^verbatim>\<open>EnhancedErrorHandler\<close> (its circuit-breaker table
  plays no part here).
\<close>

record enhanced_error_handler =
  checkpoints :: "string \<rightharpoonup> checkpoint"

text \<open>
  \<^verbatim>\<open>createCheckpoint\<close>, with the identifier that \<^verbatim>\<open>generateCheckpointId\<close>
  draws from the clock and the random generator, and the clock reading \<open>now\<close>.
\<close>

definition createCheckpoint ::
  "string \<Rightarrow> string \<Rightarrow> enhanced_error_handler \<Rightarrow> js_heap \<Rightarrow> string \<Rightarrow> js_value \<Rightarrow>
   (js_error + string) \<times> enhanced_error_handler \<times> js_heap" where
  "createCheckpoint generateCheckpointId now handler h operationId state =
     (case structuredClone h state of
        Inl e \<Rightarrow> (Inl e, handler, h)
      | Inr (snapshot, h') \<Rightarrow>
          let checkpoint =
                \<lparr>checkpoint_id = generateCheckpointId,
                 checkpoint_timestamp = now,
                 checkpoint_operation = operationId,
                 state_snapshot = snapshot,
                 dependencies = []\<rparr>
          in (Inr (checkpoint_id checkpoint),
              handler\<lparr>checkpoints := (checkpoints handler)(checkpoint_id checkpoint \<mapsto> checkpoint)\<rparr>,
              h'))"

subsection \<open>Reading a value\<close>

text \<open>
  What a program can read from a value by following property accesses at most \<open>d\<close>
  deep: the primitives it finds and the shape of the objects, never an address.
\<close>

datatype js_tree = Leaf js_value | Node "(string \<times> js_tree) list" | Cut | Dangling

fun view :: "nat \<Rightarrow> js_heap \<Rightarrow> js_value \<Rightarrow> js_tree" where
  "view 0 h (VRef a) = Cut"
| "view (Suc d) h (VRef a) =
     (if a < length h then Node (map (\<lambda>(k, x). (k, view d h x)) (h ! a)) else Dangling)"
| "view d h v = Leaf v"

text \<open>
  The invariant of the traversal: the references held by the visited objects point into
  the set \<open>S\<close>.
\<close>

definition closed_in :: "js_heap \<Rightarrow> nat list \<Rightarrow> nat set \<Rightarrow> bool" where
  "closed_in h visited S =
     (\<forall>a \<in> set visited. \<forall>b \<in> set (refs_of (h ! a)). b < length h \<longrightarrow> b \<in> S)"

section \<open>Collaboration manager\<close>

subsection \<open>The lock manager\<close>

datatype lock_type = Shared | Exclusive

record resource_lock =
  resource_id :: string
  lock_type :: lock_type
  holder :: string
  acquired_at :: nat
  expires_at :: nat
  renewable :: bool

text \<open>
  Modelled from the spec: the class \<^verbatim>\<open>DistributedLockManager\<close> is used by
  \<^verbatim>\<open>CollaborationManager\<close> but not defined in the source. The manager is its
  lock table, together with the resources it granted and the releases it performed, in
  order.
\<close>

record distributed_lock_manager =
  held :: "resource_lock list"
  granted :: "string list"
  released :: "(string \<times> string) list"

definition incompatible :: "lock_type \<Rightarrow> lock_type \<Rightarrow> bool" where
  "incompatible requested existing = (requested = Exclusive \<or> existing = Exclusive)"

text \<open>Modelled from the spec: the lease duration, five minutes, in milliseconds.\<close>

definition lease_duration :: nat where
  "lease_duration = 300000"

text \<open>
  Modelled from the spec: \<^verbatim>\<open>acquire\<close> fails with
  \<^verbatim>\<open>LockConflictError\<close> if an incompatible lock (exclusive against any, shared
  against exclusive) is currently held and not expired, and otherwise grants a lease
  that expires after the lease duration; expired leases on the resource are detected,
  and dropped, at acquisition.
\<close>

definition acquire ::
  "nat \<Rightarrow> distributed_lock_manager \<Rightarrow> resource_lock \<Rightarrow>
   (js_error + resource_lock) \<times> distributed_lock_manager" where
  "acquire now dlm request =
     (if list_ex (\<lambda>l. resource_id l = resource_id request \<and> now < expires_at l \<and>
                       incompatible (lock_type request) (lock_type l)) (held dlm)
      then (Inl (JsError ''LockConflictError'' (resource_id request)), dlm)
      else
        let lock = request\<lparr>acquired_at := now, expires_at := now + lease_duration\<rparr>
        in (Inr lock,
            dlm\<lparr>held := filter (\<lambda>l. \<not> (resource_id l = resource_id request \<and> expires_at l \<le> now))
                            (held dlm) @ [lock],
                granted := granted dlm @ [resource_id request]\<rparr>))"

text \<open>
  Modelled from the spec: \<^verbatim>\<open>release\<close> fails with \<^verbatim>\<open>NotHolderError\<close>
  if the caller is not the current holder, and otherwise removes the caller's lock on
  the resource.
\<close>

definition release ::
  "distributed_lock_manager \<Rightarrow> string \<Rightarrow> string \<Rightarrow>
   (js_error + unit) \<times> distributed_lock_manager" where
  "release dlm resourceId caller =
     (if list_ex (\<lambda>l. resource_id l = resourceId \<and> holder l = caller) (held dlm)
      then (Inr (),
            dlm\<lparr>held := filter (\<lambda>l. \<not> (resource_id l = resourceId \<and> holder l = caller)) (held dlm),
                released := released dlm @ [(resourceId, caller)]\<rparr>)
      else (Inl (JsError ''NotHolderError'' resourceId), dlm))"

subsection \<open>coordinateOperation\<close>

record collaborative_operation =
  operation_id :: string
  operation_source :: string
  operation_resources :: "string list"

text \<open>\<^verbatim>\<open>getSystemId\<close>, from the environment variable \<^verbatim>\<open>SYSTEM_ID\<close>.\<close>

definition getSystemId :: "string option \<Rightarrow> string" where
  "getSystemId SYSTEM_ID =
     (case SYSTEM_ID of
        None \<Rightarrow> ''unknown_system''
      | Some v \<Rightarrow> if v = [] then ''unknown_system'' else v)"

text \<open>
  The loop of \<^verbatim>\<open>acquireLocks\<close>, with the locks collected so far. An
  \<^verbatim>\<open>acquire\<close> that throws ends the loop and the function: the local list of
  locks is lost with it.
\<close>

fun acquireLocks_loop ::
  "string option \<Rightarrow> nat \<Rightarrow> string list \<Rightarrow> resource_lock list \<Rightarrow> distributed_lock_manager \<Rightarrow>
   (js_error + resource_lock list) \<times> distributed_lock_manager" where
  "acquireLocks_loop env now [] locks dlm = (Inr locks, dlm)"
| "acquireLocks_loop env now (r # rest) locks dlm =
     (case acquire now dlm
             \<lparr>resource_id = r, lock_type = Exclusive, holder = getSystemId env,
              acquired_at = now, expires_at = now + 300000, renewable = True\<rparr> of
        (Inl e, dlm') \<Rightarrow> (Inl e, dlm')
      | (Inr lock, dlm') \<Rightarrow> acquireLocks_loop env now rest (locks @ [lock]) dlm')"

definition acquireLocks ::
  "string option \<Rightarrow> nat \<Rightarrow> string list \<Rightarrow> distributed_lock_manager \<Rightarrow>
   (js_error + resource_lock list) \<times> distributed_lock_manager" where
  "acquireLocks env now resources dlm = acquireLocks_loop env now resources [] dlm"

fun releaseLocks ::
  "resource_lock list \<Rightarrow> distributed_lock_manager \<Rightarrow>
   (js_error + unit) \<times> distributed_lock_manager" where
  "releaseLocks [] dlm = (Inr (), dlm)"
| "releaseLocks (lock # locks) dlm =
     (case release dlm (resource_id lock) (holder lock) of
        (Inl e, dlm') \<Rightarrow> (Inl e, dlm')
      | (Inr u, dlm') \<Rightarrow> releaseLocks locks dlm')"

text \<open>
  The \<^verbatim>\<open>try\<close> block of \<^verbatim>\<open>coordinateOperation\<close>. The event bus and
  \<^verbatim>\<open>executeWithCoordination\<close> are not defined in the source: \<open>publish\<close> gives
  the error that publishing an event of the given type throws, if any, and
  \<open>executeWithCoordination\<close> the result or the error of the execution.
\<close>

definition coordinate_try ::
  "(string \<Rightarrow> js_error option) \<Rightarrow> (collaborative_operation \<Rightarrow> js_error + 'r) \<Rightarrow>
   collaborative_operation \<Rightarrow> js_error + 'r" where
  "coordinate_try publish executeWithCoordination operation =
     (case publish ''operation_started'' of
        Some e \<Rightarrow> Inl e
      | None \<Rightarrow>
          (case executeWithCoordination operation of
             Inl e \<Rightarrow> Inl e
           | Inr result \<Rightarrow>
               (case publish ''operation_completed'' of
                  Some e \<Rightarrow> Inl e
                | None \<Rightarrow> Inr result)))"

text \<open>
  \<^verbatim>\<open>coordinateOperation\<close>: the locks are acquired before the \<^verbatim>\<open>try\<close>;
  the \<^verbatim>\<open>finally\<close> block releases them, and an error thrown there replaces the
  outcome of the \<^verbatim>\<open>try\<close> block.
\<close>

definition coordinateOperation ::
  "(string \<Rightarrow> js_error option) \<Rightarrow> (collaborative_operation \<Rightarrow> js_error + 'r) \<Rightarrow>
   string option \<Rightarrow> nat \<Rightarrow> distributed_lock_manager \<Rightarrow> collaborative_operation \<Rightarrow>
   (js_error + 'r) \<times> distributed_lock_manager" where
  "coordinateOperation publish executeWithCoordination env now dlm operation =
     (case acquireLocks env now (operation_resources operation) dlm of
        (Inl e, dlm') \<Rightarrow> (Inl e, dlm')
      | (Inr locks, dlm') \<Rightarrow>
          (case releaseLocks locks dlm' of
             (Inl e, dlm'') \<Rightarrow> (Inl e, dlm'')
           | (Inr u, dlm'') \<Rightarrow>
               (coordinate_try publish executeWithCoordination operation, dlm'')))"

text \<open>The lease the lock manager grants to this system for resource \<open>r\<close> at time \<open>now\<close>.\<close>

definition granted_lock :: "string option \<Rightarrow> nat \<Rightarrow> string \<Rightarrow> resource_lock" where
  "granted_lock env now r =
     \<lparr>resource_id = r, lock_type = Exclusive, holder = getSystemId env,
      acquired_at = now, expires_at = now + lease_duration, renewable = True\<rparr>"


section \<open>Example inputs\<close>

definition unsigned_request :: enhanced_message where
  "unsigned_request = \<lparr>msg_method = Some ''tools/list'', msg_signature = None, msg_context = None\<rparr>"

definition example_signature :: cryptographic_signature where
  "example_signature = \<lparr>algorithm = ''RSA-SHA256'', publicKey = ''pk'', signature = ''c2ln''\<rparr>"

definition signed_request :: enhanced_message where
  "signed_request =
     \<lparr>msg_method = Some ''tools/call'', msg_signature = Some example_signature,
      msg_context = Some \<lparr>userId = Some ''alice'', sessionId = ''s1'', correlationId = ''c1''\<rparr>\<rparr>"

definition empty_framework :: security_framework where
  "empty_framework = \<lparr>sf_permissions = Map.empty, sandboxes = Map.empty, auditLog = []\<rparr>"

definition example_permissions :: "permission list" where
  "example_permissions =
     [\<lparr>resource = ''files'', actions = [\<lparr>type = Read\<rparr>, \<lparr>type = Write\<rparr>], auditRequired = False\<rparr>,
      \<lparr>resource = ''tools'', actions = [\<lparr>type = Execute\<rparr>], auditRequired = True\<rparr>]"

definition example_result :: authentication_result where
  "example_result =
     \<lparr>authenticated = True, permissions = [''files'', ''tools''],
      riskLevel = Critical, requiresAudit = True\<rparr>"

definition container_config :: sandbox_configuration where
  "container_config =
     \<lparr>config_id = ''sb1'', sandbox_type = Container, sandbox_resources = [(''memory_mb'', 512)]\<rparr>"

definition wasm_config :: sandbox_configuration where
  "wasm_config =
     \<lparr>config_id = ''sb1'', sandbox_type = Wasm, sandbox_resources = [(''memory_mb'', 64)]\<rparr>"

definition framework_with_sandbox :: security_framework where
  "framework_with_sandbox =
     empty_framework\<lparr>sandboxes := [''sb1'' \<mapsto> \<lparr>config = container_config, initialized = True\<rparr>]\<rparr>"

text \<open>An operation that fails on every call and counts its calls.\<close>

definition always_failing_strategy ::
  "js_number option \<Rightarrow> js_number option \<Rightarrow> string option \<Rightarrow> nat recovery_strategy" where
  "always_failing_strategy m b st =
     \<lparr>strategy_type = ''retry'', strategy_maxAttempts = m, strategy_baseDelay = b,
      strategy_backoffStrategy = st,
      strategy_operation = (\<lambda>n. (Inl (new_Error ''unavailable''), Suc n))\<rparr>"

definition no_recovery ::
  "nat recovery_strategy \<Rightarrow> nat \<Rightarrow> (js_error + bool) \<times> nat \<times> retry_event list" where
  "no_recovery strategy s = (Inr False, s, [])"

definition no_pow_approx :: "rat \<Rightarrow> js_number" where
  "no_pow_approx r = NaN"

text \<open>A state with a cycle and a shared object: a job that refers to itself and to its items, which refer back.\<close>

definition job_object :: "nat \<Rightarrow> js_object" where
  "job_object base =
     [(''name'', VStr ''job''), (''self'', VRef base), (''items'', VRef (base + 1))]"

definition items_object :: "nat \<Rightarrow> js_object" where
  "items_object base = [(''0'', VNum 1), (''owner'', VRef base)]"

definition job_heap :: js_heap where
  "job_heap = [job_object 0, items_object 0]"

definition corrupted_object :: js_object where
  "corrupted_object = [(''name'', VStr ''corrupted'')]"

definition no_checkpoints :: enhanced_error_handler where
  "no_checkpoints = \<lparr>checkpoints = Map.empty\<rparr>"

definition free_locks :: distributed_lock_manager where
  "free_locks = \<lparr>held = [], granted = [], released = []\<rparr>"

definition contested_locks :: distributed_lock_manager where
  "contested_locks =
     \<lparr>held = [\<lparr>resource_id = ''B'', lock_type = Exclusive, holder = ''other_system'',
               acquired_at = 0, expires_at = 300000, renewable = True\<rparr>],
      granted = [], released = []\<rparr>"

definition operation_on :: "string list \<Rightarrow> collaborative_operation" where
  "operation_on rs = \<lparr>operation_id = ''op1'', operation_source = ''client'', operation_resources = rs\<rparr>"

section \<open>Properties of the security framework\<close>

text \<open>
  Claim C1. A request without a signature is not an error: \<^verbatim>\<open>authenticateRequest\<close>
  returns a result with \<^verbatim>\<open>authenticated = true\<close>, the permissions exactly
  \<^verbatim>\<open>['read:public']\<close>, the risk level \<^verbatim>\<open>medium\<close> and
  \<^verbatim>\<open>requiresAudit = true\<close>; nothing is thrown and the framework, its audit log
  included, is left as it was.
\<close>

theorem authenticateRequest_unsigned:
  "msg_signature message = None \<Longrightarrow>
   authenticateRequest verifySignature getPermissions now sf message =
     (Inr \<lparr>authenticated = True, permissions = [''read:public''],
           riskLevel = Medium, requiresAudit = True\<rparr>, sf)"
  by (simp add: authenticateRequest_def)

theorem authenticateRequest_unsigned_witness:
  "msg_signature unsigned_request = None \<and>
   authenticateRequest (\<lambda>sig m. Inr False) (\<lambda>u. Inr []) ''2024-01-01T00:00:00Z''
       empty_framework unsigned_request =
     (Inr \<lparr>authenticated = True, permissions = [''read:public''],
           riskLevel = Medium, requiresAudit = True\<rparr>, empty_framework)"
  using authenticateRequest_unsigned
          [of unsigned_request "\<lambda>sig m. Inr False" "\<lambda>u. Inr []" "''2024-01-01T00:00:00Z''"
              empty_framework]
  by (simp add: unsigned_request_def)

text \<open>
  Claim C2, as the code has it. The code defines no \<^verbatim>\<open>AuthError\<close>. When the
  verifier answers false the error thrown is \<^verbatim>\<open>new Error('Invalid signature')\<close>,
  whose name, which \<^verbatim>\<open>mapErrorToCode\<close> reads, is \<^verbatim>\<open>Error\<close>.
\<close>

theorem authenticateRequest_invalid_signature_counterexample:
  "fst (authenticateRequest (\<lambda>sig m. Inr False) (\<lambda>u. Inr example_permissions)
          ''2024-01-01T00:00:00Z'' empty_framework signed_request) =
     Inl (JsError ''Error'' ''Invalid signature'') \<and>
   error_name (JsError ''Error'' ''Invalid signature'') \<noteq> ''AuthError''"
  by (simp add: authenticateRequest_def authenticate_try_def signed_request_def new_Error_def)

text \<open>
  Claim C2, amended. When the signature is present and verification does not succeed,
  \<^verbatim>\<open>authenticateRequest\<close> throws: the error the verifier threw, if it threw, and
  otherwise, the verifier having answered false, a plain \<^verbatim>\<open>Error\<close> with the
  message \<^verbatim>\<open>Invalid signature\<close>. The audit log after the call is the log before
  it followed by exactly one entry, the record of this failure with the message of the
  error thrown; the rest of the framework is unchanged.
\<close>

theorem authenticateRequest_invalid_signature:
  assumes "msg_signature message = Some sig"
      and "verifySignature sig message \<noteq> Inr True"
  shows "\<exists>error.
           error = (case verifySignature sig message of
                      Inl e \<Rightarrow> e
                    | Inr isValid \<Rightarrow> JsError ''Error'' ''Invalid signature'') \<and>
           authenticateRequest verifySignature getPermissions now sf message =
             (Inl error,
              sf\<lparr>auditLog := auditLog sf @
                    [\<lparr>timestamp = now, event = ''authentication_failed'',
                      details_error = error_message error,
                      details_context = msg_context message\<rparr>]\<rparr>)"
  using assms
  by (cases "verifySignature sig message")
     (auto simp: authenticateRequest_def authenticate_try_def new_Error_def)

theorem authenticateRequest_invalid_signature_witness:
  "msg_signature signed_request = Some example_signature \<and>
   (\<lambda>sig m. Inr False) example_signature signed_request \<noteq> (Inr True :: js_error + bool) \<and>
   authenticateRequest (\<lambda>sig m. Inr False) (\<lambda>u. Inr example_permissions) ''2024-01-01T00:00:00Z''
       empty_framework signed_request =
     (Inl (JsError ''Error'' ''Invalid signature''),
      empty_framework\<lparr>auditLog :=
        [\<lparr>timestamp = ''2024-01-01T00:00:00Z'', event = ''authentication_failed'',
          details_error = ''Invalid signature'',
          details_context = msg_context signed_request\<rparr>]\<rparr>)"
  using authenticateRequest_invalid_signature
          [of signed_request example_signature "\<lambda>sig m. Inr False"
              "\<lambda>u. Inr example_permissions" "''2024-01-01T00:00:00Z''" empty_framework]
  by (auto simp: signed_request_def empty_framework_def)

text \<open>
  Claim C6, as the code has it. \<^verbatim>\<open>createSandbox\<close> has no check for an id that is
  already registered. The claim, that it fails with a conflict error and leaves the
  registered sandbox unchanged, is false: registering a WebAssembly sandbox under the id
  of a registered container sandbox returns the id and replaces the container sandbox.
\<close>

theorem createSandbox_duplicate_counterexample:
  "sandboxes framework_with_sandbox (config_id wasm_config) =
     Some \<lparr>config = container_config, initialized = True\<rparr> \<and>
   fst (createSandbox (\<lambda>c. None) framework_with_sandbox wasm_config) = Inr ''sb1'' \<and>
   sandboxes (snd (createSandbox (\<lambda>c. None) framework_with_sandbox wasm_config)) ''sb1'' =
     Some \<lparr>config = wasm_config, initialized = True\<rparr> \<and>
   \<lparr>config = wasm_config, initialized = True\<rparr> \<noteq> \<lparr>config = container_config, initialized = True\<rparr>"
  by (simp add: createSandbox_def framework_with_sandbox_def empty_framework_def
        wasm_config_def container_config_def)

text \<open>
  Claim C6, amended. For every sandbox configuration whose id is already registered,
  \<^verbatim>\<open>createSandbox\<close> does not fail when the new sandbox initializes: it returns the
  id and registers the new sandbox in place of the existing one; every other registered
  sandbox, the audit log and the permissions are unchanged.
\<close>

theorem createSandbox_duplicate_replaces:
  assumes "sandboxes sf (config_id cfg) = Some existing"
      and "initialize cfg = None"
  shows "\<exists>sf'. createSandbox initialize sf cfg = (Inr (config_id cfg), sf') \<and>
           sandboxes sf' (config_id cfg) = Some \<lparr>config = cfg, initialized = True\<rparr> \<and>
           (\<forall>k. k \<noteq> config_id cfg \<longrightarrow> sandboxes sf' k = sandboxes sf k) \<and>
           auditLog sf' = auditLog sf \<and> sf_permissions sf' = sf_permissions sf"
  using assms by (simp add: createSandbox_def)

theorem createSandbox_duplicate_replaces_witness:
  "sandboxes framework_with_sandbox (config_id wasm_config) =
     Some \<lparr>config = container_config, initialized = True\<rparr> \<and>
   (\<exists>sf'. createSandbox (\<lambda>c. None) framework_with_sandbox wasm_config = (Inr ''sb1'', sf') \<and>
      sandboxes sf' ''sb1'' = Some \<lparr>config = wasm_config, initialized = True\<rparr>)"
  using createSandbox_duplicate_replaces
          [of framework_with_sandbox wasm_config "\<lparr>config = container_config, initialized = True\<rparr>"
              "\<lambda>c. None"]
  by (auto simp add: framework_with_sandbox_def empty_framework_def wasm_config_def)

text \<open>
  Claim C8. On a request whose signature verifies and whose permissions resolve to
  \<open>perms\<close>, the risk level that \<^verbatim>\<open>authenticateRequest\<close> returns is
  \<^verbatim>\<open>critical\<close> if some permission has an \<^verbatim>\<open>execute\<close> action, otherwise
  \<^verbatim>\<open>high\<close> if some permission has a \<^verbatim>\<open>write\<close> or \<^verbatim>\<open>delete\<close>
  action, otherwise \<^verbatim>\<open>medium\<close>.
\<close>

theorem authenticateRequest_riskLevel:
  assumes "msg_signature message = Some sig"
      and "verifySignature sig message = Inr True"
      and "getPermissions (case msg_context message of None \<Rightarrow> None | Some c \<Rightarrow> userId c) = Inr perms"
  shows "\<exists>r. authenticateRequest verifySignature getPermissions now sf message = (Inr r, sf) \<and>
             riskLevel r =
               (if \<exists>p \<in> set perms. \<exists>a \<in> set (actions p). type a = Execute then Critical
                else if \<exists>p \<in> set perms. \<exists>a \<in> set (actions p). type a = Write \<or> type a = Delete
                     then High
                else Medium)"
  using assms
  by (simp add: authenticateRequest_def authenticate_try_def calculateRiskLevel_def list_ex_iff)

theorem authenticateRequest_riskLevel_witness:
  "msg_signature signed_request = Some example_signature \<and>
   (\<exists>r. authenticateRequest (\<lambda>sig m. Inr True) (\<lambda>u. Inr example_permissions)
           ''2024-01-01T00:00:00Z'' empty_framework signed_request = (Inr r, empty_framework) \<and>
         riskLevel r = Critical)"
  using authenticateRequest_riskLevel
          [of signed_request example_signature "\<lambda>sig m. Inr True"
              "\<lambda>u. Inr example_permissions" example_permissions "''2024-01-01T00:00:00Z''"
              empty_framework]
  by (simp add: signed_request_def example_permissions_def)

text \<open>
  Claim C9. \<^verbatim>\<open>destroySandbox\<close> never throws; on an id that is not registered
  (never registered, or already destroyed) it changes nothing; and a second call on the
  same id is such a no-op.
\<close>

theorem destroySandbox_idempotent:
  "fst (destroySandbox sf sandboxId) = Inr () \<and>
   (sandboxes sf sandboxId = None \<longrightarrow> destroySandbox sf sandboxId = (Inr (), sf)) \<and>
   destroySandbox (snd (destroySandbox sf sandboxId)) sandboxId =
     (Inr (), snd (destroySandbox sf sandboxId))"
  by (simp add: destroySandbox_def split: option.splits)

theorem destroySandbox_idempotent_witness:
  "sandboxes empty_framework ''sb1'' = None \<and>
   destroySandbox empty_framework ''sb1'' = (Inr (), empty_framework) \<and>
   sandboxes framework_with_sandbox ''sb1'' \<noteq> None \<and>
   destroySandbox (snd (destroySandbox framework_with_sandbox ''sb1'')) ''sb1'' =
     (Inr (), empty_framework)"
  using destroySandbox_idempotent [of empty_framework "''sb1''"]
        destroySandbox_idempotent [of framework_with_sandbox "''sb1''"]
  by (simp add: empty_framework_def framework_with_sandbox_def destroySandbox_def)

text \<open>
  Claim C10. Whatever the message, signed or not, a result that
  \<^verbatim>\<open>authenticateRequest\<close> returns has \<^verbatim>\<open>authenticated = true\<close>: a failed
  authentication is thrown, never returned as a false flag.
\<close>

theorem authenticateRequest_returns_authenticated:
  "authenticateRequest verifySignature getPermissions now sf message = (Inr r, sf') \<Longrightarrow>
   authenticated r"
  by (auto simp: authenticateRequest_def authenticate_try_def
           split: option.splits sum.splits if_splits)

theorem authenticateRequest_returns_authenticated_witness:
  "authenticateRequest (\<lambda>sig m. Inr True) (\<lambda>u. Inr example_permissions) ''2024-01-01T00:00:00Z''
       empty_framework signed_request = (Inr example_result, empty_framework) \<and>
   authenticated example_result"
proof -
  have run: "authenticateRequest (\<lambda>sig m. Inr True) (\<lambda>u. Inr example_permissions)
               ''2024-01-01T00:00:00Z'' empty_framework signed_request =
             (Inr example_result, empty_framework)"
    by (simp add: authenticateRequest_def authenticate_try_def signed_request_def
          example_permissions_def example_result_def calculateRiskLevel_def)
  from authenticateRequest_returns_authenticated [OF run] run show ?thesis by simp
qed

section \<open>Properties of retry with backoff\<close>

text \<open>Integers of magnitude at most \<open>2\<^bsup>53\<^esup>\<close> are doubles: rounding leaves them as they are.\<close>

lemma bit_length_pos: "0 < n \<Longrightarrow> 0 < bit_length n"
  by (subst bit_length.simps) simp

lemma bit_length_lower: "0 < n \<Longrightarrow> 2 ^ (bit_length n - 1) \<le> n"
proof (induction n rule: bit_length.induct)
  case (1 n)
  show ?case
  proof (cases "n div 2 \<le> 0")
    case True
    then have "bit_length (n div 2) = 0" by (subst bit_length.simps) simp
    with 1(2) show ?thesis by (subst bit_length.simps) simp
  next
    case False
    then have pos: "0 < n div 2" by simp
    with 1 have ih: "2 ^ (bit_length (n div 2) - 1) \<le> n div 2" by simp
    from pos have "0 < bit_length (n div 2)" by (rule bit_length_pos)
    then have "(2::int) ^ bit_length (n div 2) = 2 * 2 ^ (bit_length (n div 2) - 1)"
      by (cases "bit_length (n div 2)") simp_all
    also have "\<dots> \<le> 2 * (n div 2)" using ih by simp
    also have "\<dots> \<le> n" by simp
    finally show ?thesis using 1(2) by (subst bit_length.simps) simp
  qed
qed

lemma round_half_even_of_int: "round_half_even (of_int z) = z"
  by (simp add: round_half_even_def)

lemma to_double_of_int:
  assumes "\<bar>n\<bar> \<le> 2 ^ 53"
  shows "to_double (of_int n) = Fin (of_int n)"
proof (cases "n = 0")
  case True
  then show ?thesis by (simp add: to_double_def)
next
  case False
  define N where "N = \<bar>n\<bar>"
  have Npos: "0 < N" using False by (simp add: N_def)
  have abs_eq: "\<bar>of_int n :: rat\<bar> = of_int N" by (simp add: N_def)
  have ge1: "(1::rat) \<le> of_int N" using Npos by simp
  define k where "k = int (bit_length N) - 1"
  have il: "ilog2 \<bar>of_int n\<bar> = k"
    unfolding abs_eq using ge1 by (simp add: ilog2_def k_def)
  have k0: "0 \<le> k" using bit_length_pos[OF Npos] by (simp add: k_def)
  have "(2::int) ^ (bit_length N - 1) \<le> N" by (rule bit_length_lower[OF Npos])
  also have "N \<le> 2 ^ 53" using assms by (simp only: N_def)
  finally have le53: "(2::int) ^ (bit_length N - 1) \<le> 2 ^ 53" .
  have "bit_length N - 1 \<le> 53"
    by (rule power_le_imp_le_exp[of "2::int"]) (simp, rule le53)
  then have k53: "k \<le> 53" using bit_length_pos[OF Npos] by (simp add: k_def)
  define e where "e = max (k - 52) (- 1074)"
  have small: "\<bar>of_int n :: rat\<bar> < 2 ^ 1024"
  proof -
    have "\<bar>of_int n :: rat\<bar> \<le> 2 ^ 53" unfolding abs_eq using assms
      by (metis N_def of_int_le_iff of_int_numeral of_int_power)
    also have "\<dots> < 2 ^ 1024" by simp
    finally show ?thesis .
  qed
  have y: "of_int (round_half_even (of_int n / pow2 e)) * pow2 e = (of_int n :: rat)"
  proof (cases "e \<le> 0")
    case True
    then have p: "pow2 e = 1 / 2 ^ nat (- e)"
      by (cases "e = 0") (simp_all add: pow2_def)
    have "of_int n / pow2 e = (of_int (n * 2 ^ nat (- e)) :: rat)" by (simp add: p)
    then have "round_half_even (of_int n / pow2 e) = n * 2 ^ nat (- e)"
      by (simp only: round_half_even_of_int)
    then show ?thesis by (simp add: p)
  next
    case False
    with k53 have e1: "e = 1" and k: "k = 53" by (simp_all add: e_def)
    then have "bit_length N - 1 = 53" using bit_length_pos[OF Npos] by (simp add: k_def)
    with bit_length_lower[OF Npos] have "2 ^ 53 \<le> N" by simp
    with assms have N: "N = 2 ^ 53" by (simp add: N_def)
    then have "n = 2 ^ 53 \<or> n = - (2 ^ 53)" by (auto simp: N_def abs_if split: if_splits)
    then show ?thesis
      by (auto simp: e1 pow2_def round_half_even_def)
  qed
  show ?thesis
    using False small il y
    by (simp add: to_double_def Let_def e_def)
qed


text \<open>So the arithmetic of the loop is exact as long as its results stay in that range.\<close>

lemma js_add_int:
  "\<bar>a + b\<bar> \<le> 2 ^ 53 \<Longrightarrow> js_add (Fin (of_int a)) (Fin (of_int b)) = Fin (of_int (a + b))"
  using to_double_of_int[of "a + b"] by simp

lemma js_sub_int:
  "\<bar>a - b\<bar> \<le> 2 ^ 53 \<Longrightarrow> js_sub (Fin (of_int a)) (Fin (of_int b)) = Fin (of_int (a - b))"
  using to_double_of_int[of "a - b"] by (simp add: js_sub_def)

lemma js_mul_int:
  "\<bar>a * b\<bar> \<le> 2 ^ 53 \<Longrightarrow> js_mul (Fin (of_int a)) (Fin (of_int b)) = Fin (of_int (a * b))"
  using to_double_of_int[of "a * b"] by simp

lemma js_le_int: "js_le (Fin (of_int a)) (Fin (of_int b)) = (a \<le> b)"
  by simp

lemma js_strict_eq_int: "js_strict_eq (Fin (of_int a)) (Fin (of_int b)) = (a = b)"
  by (simp add: js_strict_eq_def)

lemma Math_pow2_int:
  assumes "0 \<le> k" and "k \<le> 53"
  shows "Math_pow2 pow_approx (Fin (of_int k)) = Fin (of_int (2 ^ nat k))"
proof -
  have "(2::int) ^ nat k \<le> 2 ^ 53"
    using assms by (intro power_increasing) simp_all
  then have "\<bar>(2::int) ^ nat k\<bar> \<le> 2 ^ 53" by simp
  then have "to_double (of_int (2 ^ nat k)) = Fin (of_int (2 ^ nat k))"
    by (rule to_double_of_int)
  moreover have "pow2 k = of_int (2 ^ nat k)" using assms by (simp add: pow2_def)
  moreover have "\<not> (1024::rat) \<le> of_int k" "\<not> (of_int k :: rat) < - 1075"
    using assms by simp_all
  ultimately show ?thesis by simp
qed

lemma calculateBackoffDelay_exact:
  assumes "1 \<le> k" and "k \<le> 2 ^ 53" and "B \<noteq> 0"
      and "\<bar>exact_delay B st k\<bar> \<le> 2 ^ 53"
  shows "calculateBackoffDelay pow_approx (Fin (of_int k)) (Fin (of_int B)) st =
           Fin (of_int (exact_delay B st k))"
proof (cases "st = Some ''exponential''")
  case True
  with assms(4) have r: "\<bar>B * 2 ^ nat (k - 1)\<bar> \<le> 2 ^ 53" by (simp add: exact_delay_def)
  have "1 \<le> \<bar>B\<bar>" using assms(3) by simp
  then have "(2::int) ^ nat (k - 1) \<le> \<bar>B\<bar> * 2 ^ nat (k - 1)"
    by (simp add: mult_le_cancel_right1)
  also have "\<dots> = \<bar>B * 2 ^ nat (k - 1)\<bar>" by (simp add: abs_mult)
  finally have "(2::int) ^ nat (k - 1) \<le> 2 ^ 53" using r by simp
  then have "nat (k - 1) \<le> 53" by (rule power_le_imp_le_exp[of "2::int", rotated]) simp
  then have k53: "k - 1 \<le> 53" by simp
  have "\<bar>k - 1\<bar> \<le> 2 ^ 53" using assms(1) k53 by simp
  then have s: "js_sub (Fin (of_int k)) (Fin (of_int 1)) = Fin (of_int (k - 1))"
    by (rule js_sub_int)
  have p: "Math_pow2 pow_approx (Fin (of_int (k - 1))) = Fin (of_int (2 ^ nat (k - 1)))"
    using assms(1) k53 by (intro Math_pow2_int) simp_all
  have m: "js_mul (Fin (of_int B)) (Fin (of_int (2 ^ nat (k - 1)))) =
           Fin (of_int (B * 2 ^ nat (k - 1)))"
    using r by (rule js_mul_int)
  from True s p m show ?thesis
    by (simp only: calculateBackoffDelay_def exact_delay_def of_int_1 simp_thms if_True)
next
  case False
  show ?thesis
  proof (cases "st = Some ''linear''")
    case True
    with False assms(4) have "\<bar>B * k\<bar> \<le> 2 ^ 53" by (simp add: exact_delay_def)
    then have "js_mul (Fin (of_int B)) (Fin (of_int k)) = Fin (of_int (B * k))"
      by (rule js_mul_int)
    with True False show ?thesis
      by (simp only: calculateBackoffDelay_def exact_delay_def simp_thms if_True if_False)
  next
    case nl: False
    with False show ?thesis by (simp add: calculateBackoffDelay_def exact_delay_def)
  qed
qed


lemma to_double_numeral:
  "numeral n \<le> (2::int) ^ 53 \<Longrightarrow> to_double (numeral n) = Fin (numeral n)"
  using to_double_of_int[of "numeral n"] by simp

lemma to_double_zero: "to_double 0 = Fin 0"
  by (simp add: to_double_def)

lemma to_double_one: "to_double 1 = Fin 1"
  using to_double_of_int[of 1] by simp

lemma to_double_rounds_up_to_even: "to_double 9007199254740993 = Fin 9007199254740992"
  by code_simp

lemma op_state_Suc:
  "op_state strategy s (Suc n) = op_state strategy (snd (strategy_operation strategy s)) n"
  unfolding op_state_def by (rule funpow_Suc_right[THEN fun_cong, simplified o_def])

lemma op_outcome_Suc:
  "op_outcome strategy s (Suc n) = op_outcome strategy (snd (strategy_operation strategy s)) n"
  by (simp only: op_outcome_def op_state_Suc)

lemma op_state_0: "op_state strategy s 0 = s"
  by (simp add: op_state_def)

lemma op_outcome_0: "op_outcome strategy s 0 = fst (strategy_operation strategy s)"
  by (simp add: op_outcome_def op_state_0)

lemma failed_rounds_empty: "b < a \<Longrightarrow> failed_rounds B st a b = []"
  by (simp add: failed_rounds_def)

lemma failed_rounds_step:
  "a \<le> b \<Longrightarrow> failed_rounds B st a b =
     [Attempt, Sleep (Fin (of_int (exact_delay B st a)))] @ failed_rounds B st (a + 1) b"
  by (simp add: failed_rounds_def upto_rec1)

lemma count_attempts_failed_rounds:
  "length (filter (\<lambda>ev. ev = Attempt) (failed_rounds B st a b)) = nat (b - a + 1)"
proof -
  have "\<And>xs. length (filter (\<lambda>ev. ev = Attempt)
            (concat (map (\<lambda>k. [Attempt, Sleep (Fin (of_int (exact_delay B st k)))]) xs))) = length xs"
    subgoal for xs by (induction xs) simp_all
    done
  then show ?thesis by (simp add: failed_rounds_def)
qed

text \<open>
  The loop, started at \<open>attempt\<close> with the attempts before \<open>j\<close> failing, and attempt
  \<open>j\<close> either succeeding or being the last one: it stops at \<open>j\<close>, having slept after
  each of the attempts before.
\<close>

lemma retry_loop_run:
  assumes "1 \<le> attempt" and "attempt \<le> j" and "j \<le> M" and "M \<le> 2 ^ 53" and "B \<noteq> 0"
      and "\<forall>k. attempt \<le> k \<and> k < j \<longrightarrow>
             \<bar>exact_delay B (strategy_backoffStrategy strategy) k\<bar> \<le> 2 ^ 53"
      and "\<forall>k. attempt \<le> k \<and> k < j \<longrightarrow> isl (op_outcome strategy s (nat (k - attempt)))"
      and "isl (op_outcome strategy s (nat (j - attempt))) \<longrightarrow> j = M"
  shows "retry_loop pow_approx strategy (Fin (of_int M)) (Fin (of_int B)) (Fin (of_int attempt)) s tr =
           Some ((case op_outcome strategy s (nat (j - attempt)) of
                    Inl e \<Rightarrow> Inl e | Inr u \<Rightarrow> Inr True),
                 op_state strategy s (Suc (nat (j - attempt))),
                 tr @ failed_rounds B (strategy_backoffStrategy strategy) attempt (j - 1) @ [Attempt])"
  using assms(1,2,6,7,8)
proof (induction "nat (j - attempt)" arbitrary: attempt s tr)
  case 0
  have eq: "j = attempt" using "0.hyps" "0.prems"(2) by linarith
  obtain r s' where op: "strategy_operation strategy s = (r, s')"
    by (cases "strategy_operation strategy s")
  have out: "op_outcome strategy s 0 = r" and st: "op_state strategy s (Suc 0) = s'"
    using op by (simp_all add: op_outcome_0 op_state_Suc op_state_0)
  have fr: "failed_rounds B (strategy_backoffStrategy strategy) attempt (attempt - 1) = []"
    by (rule failed_rounds_empty) simp
  have le: "js_le (Fin (of_int attempt)) (Fin (of_int M))"
    using eq assms(3) by (simp only: js_le_int)
  show ?case
  proof (cases r)
    case (Inl e)
    have "isl (op_outcome strategy s (nat (j - attempt)))" using eq out Inl by simp
    with "0.prems"(5) eq have "attempt = M" by blast
    then have "js_strict_eq (Fin (of_int attempt)) (Fin (of_int M))"
      by (simp only: js_strict_eq_int)
    with Inl op eq out st fr le show ?thesis
      by (subst retry_loop.simps) simp
  next
    case (Inr u)
    with op eq out st fr le show ?thesis
      by (subst retry_loop.simps) simp
  qed
next
  case (Suc n)
  have lt: "attempt < j" using Suc.hyps(2) by linarith
  obtain r s' where op: "strategy_operation strategy s = (r, s')"
    by (cases "strategy_operation strategy s")
  have "isl (op_outcome strategy s (nat (attempt - attempt)))"
    using Suc.prems(4) lt by blast
  then have "isl r" using op by (simp add: op_outcome_0)
  then obtain e where r: "r = Inl e" by (cases r) simp_all
  have n: "n = nat (j - (attempt + 1))" using Suc.hyps(2) by linarith
  have p2: "\<forall>k. attempt + 1 \<le> k \<and> k < j \<longrightarrow>
              \<bar>exact_delay B (strategy_backoffStrategy strategy) k\<bar> \<le> 2 ^ 53"
    using Suc.prems(3) by simp
  have p3: "\<forall>k. attempt + 1 \<le> k \<and> k < j \<longrightarrow> isl (op_outcome strategy s' (nat (k - (attempt + 1))))"
  proof (intro allI impI)
    fix k assume k: "attempt + 1 \<le> k \<and> k < j"
    then have "isl (op_outcome strategy s (nat (k - attempt)))"
      using Suc.prems(4) by simp
    moreover have "nat (k - attempt) = Suc (nat (k - (attempt + 1)))" using k by linarith
    ultimately have "isl (op_outcome strategy s (Suc (nat (k - (attempt + 1)))))" by simp
    then show "isl (op_outcome strategy s' (nat (k - (attempt + 1))))"
      using op by (simp only: op_outcome_Suc snd_conv)
  qed
  have jj: "nat (j - attempt) = Suc (nat (j - (attempt + 1)))" using lt by linarith
  have p4: "isl (op_outcome strategy s' (nat (j - (attempt + 1)))) \<longrightarrow> j = M"
    using Suc.prems(5) op by (simp only: jj op_outcome_Suc snd_conv)
  have le1: "attempt + 1 \<le> j" using lt by simp
  have one: "1 \<le> attempt + 1" using Suc.prems(1) by simp
  note ih = Suc.hyps(1)[OF n one le1 p2 p3 p4]
  have fr: "failed_rounds B (strategy_backoffStrategy strategy) attempt (j - 1) =
            [Attempt, Sleep (Fin (of_int (exact_delay B (strategy_backoffStrategy strategy) attempt)))]
              @ failed_rounds B (strategy_backoffStrategy strategy) (attempt + 1) (j - 1)"
    using lt by (intro failed_rounds_step) simp
  have aM: "attempt < M" using lt assms(3) by simp
  have le: "js_le (Fin (of_int attempt)) (Fin (of_int M))"
    using aM by (simp only: js_le_int)
  have ne: "\<not> js_strict_eq (Fin (of_int attempt)) (Fin (of_int M))"
    using aM by (simp only: js_strict_eq_int)
  have a53: "attempt \<le> 2 ^ 53" "\<bar>attempt + 1\<bar> \<le> 2 ^ 53"
    using aM assms(4) Suc.prems(1) by simp_all
  have inc: "js_add (Fin (of_int attempt)) (Fin 1) = Fin (of_int (attempt + 1))"
    using js_add_int[OF a53(2)] by simp
  have "\<bar>exact_delay B (strategy_backoffStrategy strategy) attempt\<bar> \<le> 2 ^ 53"
    using Suc.prems(3) lt by simp
  then have delay: "calculateBackoffDelay pow_approx (Fin (of_int attempt)) (Fin (of_int B))
                 (strategy_backoffStrategy strategy) =
               Fin (of_int (exact_delay B (strategy_backoffStrategy strategy) attempt))"
    by (intro calculateBackoffDelay_exact Suc.prems(1) a53(1) assms(5))
  have o1: "op_outcome strategy s (Suc (nat (j - (attempt + 1)))) =
            op_outcome strategy s' (nat (j - (attempt + 1)))"
    using op by (simp only: op_outcome_Suc snd_conv)
  have o2: "op_state strategy s (Suc (Suc (nat (j - (attempt + 1))))) =
            op_state strategy s' (Suc (nat (j - (attempt + 1))))"
    using op by (simp only: op_state_Suc[of strategy s] snd_conv)
  show ?case
    apply (subst retry_loop.simps)
    apply (simp only: op r le ne inc delay if_True if_False prod.case sum.case ih fr jj o1 o2)
    apply simp
    done
qed


lemma or_default_nonzero: "d \<noteq> Fin 0 \<Longrightarrow> or_default x d \<noteq> Fin 0"
  by (auto simp: or_default_def split: option.splits)

text \<open>
  Claim C4, as the code has it. The claim fails in four ways.
  The delay is not computed from the strategy's \<^verbatim>\<open>baseDelay\<close> as given:
  \<^verbatim>\<open>strategy.baseDelay || 1000\<close> replaces a base delay of 0 by 1000, so with
  \<^verbatim>\<open>maxAttempts = 2\<close>, \<^verbatim>\<open>baseDelay = 0\<close> and the exponential strategy the
  code sleeps 1000 ms where the claim has \<open>0 \<times> 2\<^sup>0 = 0\<close>.
  With a negative \<^verbatim>\<open>maxAttempts\<close> the loop body never runs: the operation is not
  called and false is returned.
  With \<^verbatim>\<open>maxAttempts = 2.5\<close> the test \<^verbatim>\<open>attempt === maxAttempts\<close> never
  holds: after the second failure the code sleeps once more and returns false, so the
  last failure is swallowed.
  And the products are doubles: with the linear strategy and
  \<^verbatim>\<open>baseDelay = 3002399751580331\<close> the third delay is 9007199254740992, not
  \<open>3002399751580331 \<times> 3 = 9007199254740993\<close>.
\<close>

theorem attemptRecovery_retry_counterexample:
  "attemptRecovery no_pow_approx no_recovery no_recovery
       (always_failing_strategy (Some (Fin 2)) (Some (Fin 0)) (Some ''exponential'')) 0 =
     Some (Inl (new_Error ''unavailable''), 2, [Attempt, Sleep (Fin 1000), Attempt]) \<and>
   Sleep (Fin 1000) \<noteq> Sleep (Fin (0 * 2 ^ nat (1 - 1))) \<and>
   attemptRecovery no_pow_approx no_recovery no_recovery
       (always_failing_strategy (Some (Fin (- 1))) (Some (Fin 100)) (Some ''exponential'')) 0 =
     Some (Inr False, 0, []) \<and>
   attemptRecovery no_pow_approx no_recovery no_recovery
       (always_failing_strategy (Some (Fin (5 / 2))) (Some (Fin 100)) (Some ''exponential'')) 0 =
     Some (Inr False, 2, [Attempt, Sleep (Fin 100), Attempt, Sleep (Fin 200)]) \<and>
   attemptRecovery no_pow_approx no_recovery no_recovery
       (always_failing_strategy (Some (Fin 4)) (Some (Fin 3002399751580331)) (Some ''linear'')) 0 =
     Some (Inl (new_Error ''unavailable''), 4,
           [Attempt, Sleep (Fin 3002399751580331), Attempt, Sleep (Fin 6004799503160662),
            Attempt, Sleep (Fin 9007199254740992), Attempt]) \<and>
   (9007199254740992 :: int) \<noteq> 3002399751580331 * 3"
  by (simp add: attemptRecovery_def retryWithBackoff_def always_failing_strategy_def
        or_default_def retry_loop.simps calculateBackoffDelay_def js_sub_def js_strict_eq_def
        pow2_def to_double_numeral to_double_zero to_double_one to_double_rounds_up_to_even)

text \<open>
  Claim C4, amended. Let \<open>M\<close> be the strategy's \<^verbatim>\<open>maxAttempts\<close>, or 3 when that
  is absent, 0 or NaN, and \<open>B\<close> its \<^verbatim>\<open>baseDelay\<close>, or 1000 when that is absent,
  0 or NaN. Let the strategy be of type \<^verbatim>\<open>retry\<close>, \<open>M\<close> and \<open>B\<close> be integers
  with \<open>1 \<le> M \<le> 2\<^bsup>53\<^esup>\<close>, and every delay below be of magnitude at most
  \<open>2\<^bsup>53\<^esup>\<close> (the range in which the arithmetic of doubles is exact). If the first
  \<open>j - 1\<close> calls of the operation fail and the \<open>j\<close>-th call either succeeds or is the
  \<open>M\<close>-th, then \<^verbatim>\<open>attemptRecovery\<close> returns or throws (it does not run for
  ever), it calls the operation exactly \<open>j\<close> times, after the \<open>k\<close>-th failed call,
  for each \<open>k < j\<close>, it calls \<^verbatim>\<open>sleep\<close> with \<open>B \<times> 2\<^bsup>k-1\<^esup>\<close> ms when
  \<^verbatim>\<open>backoffStrategy\<close> is \<^verbatim>\<open>exponential\<close>, \<open>B \<times> k\<close> when it is
  \<^verbatim>\<open>linear\<close> and \<open>B\<close> otherwise, and then it returns true at once if the
  \<open>j\<close>-th call succeeded, and throws the error of the \<open>j\<close>-th call if it failed. So
  an operation that fails on all attempts is called exactly \<open>M\<close> times and its last
  error is thrown.
\<close>

theorem attemptRecovery_retry:
  assumes "strategy_type strategy = ''retry''"
      and "or_default (strategy_maxAttempts strategy) (Fin 3) = Fin (of_int M)"
      and "or_default (strategy_baseDelay strategy) (Fin 1000) = Fin (of_int B)"
      and "1 \<le> j" and "j \<le> M" and "M \<le> 2 ^ 53"
      and "\<forall>k. 1 \<le> k \<and> k < j \<longrightarrow>
             \<bar>exact_delay B (strategy_backoffStrategy strategy) k\<bar> \<le> 2 ^ 53"
      and "\<forall>k. 1 \<le> k \<and> k < j \<longrightarrow> isl (op_outcome strategy s (nat (k - 1)))"
      and "isl (op_outcome strategy s (nat (j - 1))) \<longrightarrow> j = M"
  shows "\<exists>tr. attemptRecovery pow_approx executeFallback rollbackToCheckpoint strategy s =
           Some ((case op_outcome strategy s (nat (j - 1)) of
                    Inl e \<Rightarrow> Inl e | Inr u \<Rightarrow> Inr True),
                 op_state strategy s (nat j), tr) \<and>
           tr = concat (map (\<lambda>k. [Attempt,
                                  Sleep (Fin (of_int
                                    (exact_delay B (strategy_backoffStrategy strategy) k)))])
                          [1..j - 1]) @ [Attempt] \<and>
           length (filter (\<lambda>ev. ev = Attempt) tr) = nat j"
proof -
  have sj: "Suc (nat (j - 1)) = nat j" using assms(4) by linarith
  have "or_default (strategy_baseDelay strategy) (Fin 1000) \<noteq> Fin 0"
    by (rule or_default_nonzero) simp
  then have B0: "B \<noteq> 0" using assms(3) by auto
  have one: "(1::int) \<le> 1" by simp
  have run: "retry_loop pow_approx strategy (Fin (of_int M)) (Fin (of_int B)) (Fin (of_int 1)) s [] =
           Some ((case op_outcome strategy s (nat (j - 1)) of Inl e \<Rightarrow> Inl e | Inr u \<Rightarrow> Inr True),
                 op_state strategy s (nat j),
                 failed_rounds B (strategy_backoffStrategy strategy) 1 (j - 1) @ [Attempt])"
    using retry_loop_run[OF one assms(4) assms(5) assms(6) B0 assms(7) assms(8) assms(9),
                         of pow_approx "[]"]
    by (simp only: sj append_Nil)
  have cnt: "length (filter (\<lambda>ev. ev = Attempt)
               (failed_rounds B (strategy_backoffStrategy strategy) 1 (j - 1) @ [Attempt])) = nat j"
    using assms(4) by (simp add: count_attempts_failed_rounds)
  have "attemptRecovery pow_approx executeFallback rollbackToCheckpoint strategy s =
        retry_loop pow_approx strategy (Fin (of_int M)) (Fin (of_int B)) (Fin (of_int 1)) s []"
    using assms(1,2,3) by (simp add: attemptRecovery_def retryWithBackoff_def)
  with run cnt show ?thesis by (simp add: failed_rounds_def)
qed

theorem attemptRecovery_retry_witness:
  "attemptRecovery no_pow_approx no_recovery no_recovery
       (always_failing_strategy (Some (Fin 3)) (Some (Fin 100)) (Some ''exponential'')) 0 =
     Some (Inl (new_Error ''unavailable''), 3,
           [Attempt, Sleep (Fin 100), Attempt, Sleep (Fin 200), Attempt])"
proof -
  let ?st = "always_failing_strategy (Some (Fin 3)) (Some (Fin 100)) (Some ''exponential'')"
  have t: "strategy_type ?st = ''retry''" by (simp add: always_failing_strategy_def)
  have m: "or_default (strategy_maxAttempts ?st) (Fin 3) = Fin (of_int 3)"
    by (simp add: always_failing_strategy_def or_default_def)
  have b: "or_default (strategy_baseDelay ?st) (Fin 1000) = Fin (of_int 100)"
    by (simp add: always_failing_strategy_def or_default_def)
  have range: "\<forall>k. 1 \<le> k \<and> k < 3 \<longrightarrow>
                 \<bar>exact_delay 100 (strategy_backoffStrategy ?st) k\<bar> \<le> 2 ^ 53"
  proof (intro allI impI)
    fix k :: int assume "1 \<le> k \<and> k < 3"
    then have "k = 1 \<or> k = 2" by presburger
    then show "\<bar>exact_delay 100 (strategy_backoffStrategy ?st) k\<bar> \<le> 2 ^ 53"
      by (auto simp: exact_delay_def always_failing_strategy_def)
  qed
  have fails: "\<And>k. isl (op_outcome ?st (0::nat) k)"
    by (simp add: op_outcome_def always_failing_strategy_def)
  have f1: "\<forall>k. 1 \<le> k \<and> k < (3::int) \<longrightarrow> isl (op_outcome ?st (0::nat) (nat (k - 1)))"
    using fails by blast
  have f2: "isl (op_outcome ?st (0::nat) (nat (3 - 1))) \<longrightarrow> (3::int) = 3" by simp
  from attemptRecovery_retry[OF t m b _ _ _ range f1 f2, of no_pow_approx no_recovery no_recovery]
  show ?thesis
    by (simp add: always_failing_strategy_def op_outcome_def op_state_def exact_delay_def
          upto_rec1 eval_nat_numeral)
qed

section \<open>Properties of checkpoints\<close>

lemma reach_valid:
  "a \<in> set (reach h todo visited) \<Longrightarrow> a \<in> set visited \<or> a < length h"
proof (induction h todo visited rule: reach.induct)
  case (1 h visited)
  then show ?case by (simp add: reach.simps)
next
  case (2 h b todo visited)
  show ?case
  proof (cases "b \<in> set visited \<or> length h \<le> b")
    case True
    with 2 show ?thesis by (simp add: reach.simps)
  next
    case False
    with 2 show ?thesis by (auto simp add: reach.simps)
  qed
qed

lemma reach_mono: "set visited \<subseteq> set (reach h todo visited)"
proof (induction h todo visited rule: reach.induct)
  case (1 h visited)
  then show ?case by (simp add: reach.simps)
next
  case (2 h b todo visited)
  show ?case
  proof (cases "b \<in> set visited \<or> length h \<le> b")
    case True
    with 2 show ?thesis by (simp add: reach.simps)
  next
    case False
    with 2 show ?thesis by (auto simp add: reach.simps)
  qed
qed

lemma reach_todo:
  "b \<in> set todo \<Longrightarrow> b < length h \<Longrightarrow> b \<in> set (reach h todo visited)"
proof (induction h todo visited rule: reach.induct)
  case (1 h visited)
  then show ?case by simp
next
  case (2 h c todo visited)
  show ?case
  proof (cases "c \<in> set visited \<or> length h \<le> c")
    case True
    show ?thesis
    proof (cases "b = c")
      case True
      with \<open>c \<in> set visited \<or> length h \<le> c\<close> 2 have "b \<in> set visited" by auto
      then show ?thesis using reach_mono by blast
    next
      case False
      with True 2 show ?thesis by (simp add: reach.simps)
    qed
  next
    case False
    show ?thesis
    proof (cases "b = c")
      case True
      have "c \<in> set (visited @ [c])" by simp
      then have "c \<in> set (reach h (refs_of (h ! c) @ todo) (visited @ [c]))"
        using reach_mono by blast
      with True False show ?thesis by (simp add: reach.simps)
    next
      case bc: False
      with False 2 show ?thesis by (simp add: reach.simps)
    qed
  qed
qed

lemma reach_closed:
  "closed_in h visited (set visited \<union> set todo) \<Longrightarrow>
   closed_in h (reach h todo visited) (set (reach h todo visited))"
proof (induction h todo visited rule: reach.induct)
  case (1 h visited)
  then show ?case by (simp add: reach.simps)
next
  case (2 h c todo visited)
  show ?case
  proof (cases "c \<in> set visited \<or> length h \<le> c")
    case True
    have "closed_in h visited (set visited \<union> set todo)"
      unfolding closed_in_def
    proof (intro ballI impI)
      fix a b assume ab: "a \<in> set visited" "b \<in> set (refs_of (h ! a))" "b < length h"
      then have "b \<in> set visited \<union> set (c # todo)"
        using 2(3) unfolding closed_in_def by blast
      moreover have "b = c \<Longrightarrow> b \<in> set visited" using True ab(3) by auto
      ultimately show "b \<in> set visited \<union> set todo" by auto
    qed
    with 2(1) True show ?thesis by (simp add: reach.simps)
  next
    case False
    have "closed_in h (visited @ [c]) (set (visited @ [c]) \<union> set (refs_of (h ! c) @ todo))"
      unfolding closed_in_def
    proof (intro ballI impI)
      fix a b assume ab: "a \<in> set (visited @ [c])" "b \<in> set (refs_of (h ! a))" "b < length h"
      show "b \<in> set (visited @ [c]) \<union> set (refs_of (h ! c) @ todo)"
      proof (cases "a = c")
        case True
        with ab(2) show ?thesis by simp
      next
        case False
        with ab(1) have "a \<in> set visited" by simp
        with ab have "b \<in> set visited \<union> set (c # todo)"
          using 2(3) unfolding closed_in_def by blast
        then show ?thesis by auto
      qed
    qed
    with 2(2) False show ?thesis by (simp add: reach.simps)
  qed
qed


lemma index_of_nth:
  "a \<in> set rs \<Longrightarrow> index_of a rs < length rs \<and> rs ! index_of a rs = a"
  by (induction rs) auto

lemma refs_of_member:
  "(k, x) \<in> set ob \<Longrightarrow> b \<in> set (refs_of_value x) \<Longrightarrow> b \<in> set (refs_of ob)"
  by (auto simp: refs_of_def)

lemma view_clone:
  assumes rs_valid: "\<forall>a \<in> set rs. a < length h"
      and closed: "closed_in h rs (set rs)"
      and wfh: "\<forall>ob \<in> set h. \<forall>a \<in> set (refs_of ob). a < length h"
      and h2_len: "length h + length rs \<le> length h2"
      and agree: "\<forall>i < length rs. h2 ! (length h + i) = copy_object (length h) rs (h ! (rs ! i))"
      and v_ok: "\<forall>a \<in> set (refs_of_value v). a \<in> set rs"
  shows "view d h2 (relocate (length h) rs v) = view d h v"
  using v_ok
proof (induction d arbitrary: v)
  case 0
  then show ?case by (cases v) simp_all
next
  case (Suc d)
  show ?case
  proof (cases v)
    case (VRef a)
    with Suc.prems have a_rs: "a \<in> set rs" by simp
    then have a_h: "a < length h" using rs_valid by blast
    from a_rs have i: "index_of a rs < length rs" and nth: "rs ! index_of a rs = a"
      using index_of_nth by blast+
    have in_h2: "length h + index_of a rs < length h2" using i h2_len by linarith
    have ob: "h2 ! (length h + index_of a rs) = copy_object (length h) rs (h ! a)"
      using agree i nth by simp
    have fields: "\<And>k x. (k, x) \<in> set (h ! a) \<Longrightarrow>
                    view d h2 (relocate (length h) rs x) = view d h x"
    proof -
      fix k x assume kx: "(k, x) \<in> set (h ! a)"
      have "\<forall>b \<in> set (refs_of_value x). b \<in> set rs"
      proof
        fix b assume b: "b \<in> set (refs_of_value x)"
        then have br: "b \<in> set (refs_of (h ! a))" using kx refs_of_member by blast
        have "h ! a \<in> set h" using a_h by simp
        then have "b < length h" using wfh br by blast
        then show "b \<in> set rs" using closed a_rs br unfolding closed_in_def by blast
      qed
      then show "view d h2 (relocate (length h) rs x) = view d h x"
        by (rule Suc.IH)
    qed
    have "map (\<lambda>(k, x). (k, view d h2 x)) (copy_object (length h) rs (h ! a)) =
          map (\<lambda>(k, x). (k, view d h x)) (h ! a)"
      unfolding copy_object_def using fields by (auto simp: case_prod_beta)
    with VRef a_h in_h2 ob show ?thesis by simp
  qed simp_all
qed

lemma structuredClone_view:
  assumes wf: "well_formed h state"
      and clone: "structuredClone h state = Inr (snapshot, h')"
      and len: "length h' \<le> length h2"
      and agree: "\<forall>a. length h \<le> a \<and> a < length h' \<longrightarrow> h2 ! a = h' ! a"
  shows "view d h2 snapshot = view d h state"
proof -
  define rs where "rs = reach h (refs_of_value state) []"
  from clone have snap: "snapshot = relocate (length h) rs state"
    and h': "h' = h @ map (\<lambda>a. copy_object (length h) rs (h ! a)) rs"
    by (auto simp: structuredClone_def rs_def Let_def split: if_splits)
  have rs_valid: "\<forall>a \<in> set rs. a < length h"
    using reach_valid[of _ h "refs_of_value state" "[]"] by (auto simp: rs_def)
  have "closed_in h [] (set [] \<union> set (refs_of_value state))"
    by (simp add: closed_in_def)
  then have closed: "closed_in h rs (set rs)"
    unfolding rs_def by (rule reach_closed)
  have wfh: "\<forall>ob \<in> set h. \<forall>a \<in> set (refs_of ob). a < length h"
    using wf by (simp add: well_formed_def list_all_iff)
  have v_ok: "\<forall>a \<in> set (refs_of_value state). a \<in> set rs"
  proof
    fix a assume a: "a \<in> set (refs_of_value state)"
    then have "a < length h" using wf by (simp add: well_formed_def list_all_iff)
    with a show "a \<in> set rs" unfolding rs_def by (rule reach_todo)
  qed
  have h2_len: "length h + length rs \<le> length h2" using len h' by simp
  have agree': "\<forall>i < length rs. h2 ! (length h + i) = copy_object (length h) rs (h ! (rs ! i))"
  proof (intro allI impI)
    fix i assume i: "i < length rs"
    then have "length h \<le> length h + i \<and> length h + i < length h'" using h' by simp
    then have "h2 ! (length h + i) = h' ! (length h + i)" using agree by blast
    also have "\<dots> = copy_object (length h) rs (h ! (rs ! i))"
      using i by (simp add: h' nth_append)
    finally show "h2 ! (length h + i) = copy_object (length h) rs (h ! (rs ! i))" .
  qed
  show ?thesis
    unfolding snap by (rule view_clone[OF rs_valid closed wfh h2_len agree' v_ok])
qed

lemma job_checkpoint:
  "createCheckpoint ''cp_1'' ''2024-01-01T00:00:00Z'' no_checkpoints job_heap ''op1'' (VRef 0) =
     (Inr ''cp_1'',
      \<lparr>checkpoints = [''cp_1'' \<mapsto>
          \<lparr>checkpoint_id = ''cp_1'', checkpoint_timestamp = ''2024-01-01T00:00:00Z'',
           checkpoint_operation = ''op1'', state_snapshot = VRef 2, dependencies = []\<rparr>]\<rparr>,
      job_heap @ [job_object 2, items_object 2])"
  by (simp add: createCheckpoint_def structuredClone_def job_heap_def no_checkpoints_def
        job_object_def items_object_def
        reach.simps refs_of_def copy_object_def Let_def eval_nat_numeral)

text \<open>
  Claim C3. Let \<^verbatim>\<open>createCheckpoint\<close> return a checkpoint id on a state whose
  references all point into the store \<open>h\<close>, leaving the store \<open>h'\<close>. The stored
  snapshot refers only to the objects the call allocated, the addresses from
  \<open>length h\<close> up to \<open>length h'\<close>. A later mutation made through the original state
  rewrites objects that existed before the call, or allocates new ones: it gives a store
  \<open>h2\<close> that agrees with \<open>h'\<close> on the objects the call allocated. In every such
  store, and to every depth \<open>d\<close>, what can be read from the snapshot is what it was
  when the call returned, which is what could be read from the state when the checkpoint
  was taken.
\<close>

theorem createCheckpoint_snapshot_independent:
  assumes "well_formed h state"
      and "createCheckpoint checkpointId now handler h operationId state = (Inr cid, handler', h')"
      and "length h' \<le> length h2"
      and "\<forall>a. length h \<le> a \<and> a < length h' \<longrightarrow> h2 ! a = h' ! a"
  shows "\<exists>cp. checkpoints handler' cid = Some cp \<and>
              view d h2 (state_snapshot cp) = view d h' (state_snapshot cp) \<and>
              view d h' (state_snapshot cp) = view d h state"
proof -
  from assms(2) obtain snapshot where
    clone: "structuredClone h state = Inr (snapshot, h')"
    and cp: "checkpoints handler' cid =
               Some \<lparr>checkpoint_id = checkpointId, checkpoint_timestamp = now,
                     checkpoint_operation = operationId, state_snapshot = snapshot,
                     dependencies = []\<rparr>"
    by (auto simp: createCheckpoint_def Let_def split: sum.splits prod.splits)
  have v2: "view d h2 snapshot = view d h state"
    by (rule structuredClone_view[OF assms(1) clone assms(3) assms(4)])
  have v1: "view d h' snapshot = view d h state"
    by (rule structuredClone_view[OF assms(1) clone]) simp_all
  from cp v1 v2 show ?thesis by simp
qed

theorem createCheckpoint_snapshot_independent_witness:
  "\<exists>handler' h' cp.
     well_formed job_heap (VRef 0) \<and>
     createCheckpoint ''cp_1'' ''2024-01-01T00:00:00Z'' no_checkpoints job_heap ''op1'' (VRef 0) =
       (Inr ''cp_1'', handler', h') \<and>
     checkpoints handler' ''cp_1'' = Some cp \<and>
     view 3 (h'[0 := corrupted_object]) (state_snapshot cp) =
       view 3 job_heap (VRef 0) \<and>
     view 3 (h'[0 := corrupted_object]) (VRef 0) \<noteq> view 3 job_heap (VRef 0)"
proof -
  let ?h' = "job_heap @ [job_object 2, items_object 2]"
  let ?h2 = "?h'[0 := corrupted_object]"
  have wf: "well_formed job_heap (VRef 0)"
    by (simp add: well_formed_def job_heap_def job_object_def items_object_def refs_of_def)
  have len: "length ?h' \<le> length ?h2" by simp
  have agree: "\<forall>a. length job_heap \<le> a \<and> a < length ?h' \<longrightarrow> ?h2 ! a = ?h' ! a"
    by (simp add: job_heap_def)
  have changed: "view 3 ?h2 (VRef 0) \<noteq> view 3 job_heap (VRef 0)"
    by (simp add: job_heap_def job_object_def items_object_def corrupted_object_def
          eval_nat_numeral)
  from createCheckpoint_snapshot_independent[OF wf job_checkpoint len agree, of 3]
  show ?thesis using wf job_checkpoint changed by auto
qed

section \<open>Properties of coordinated operations\<close>

lemma acquire_granted:
  "acquire now dlm request = (outcome, dlm') \<Longrightarrow>
   released dlm' = released dlm \<and>
   (case outcome of Inl e \<Rightarrow> granted dlm' = granted dlm
                  | Inr lock \<Rightarrow> granted dlm' = granted dlm @ [resource_id request] \<and>
                               resource_id lock = resource_id request)"
  by (auto simp: acquire_def Let_def split: if_splits)

lemma acquireLocks_loop_order:
  "acquireLocks_loop env now rs locks dlm = (outcome, dlm') \<Longrightarrow>
   (\<exists>k\<le>length rs. granted dlm' = granted dlm @ take k rs) \<and>
   (\<forall>locks'. outcome = Inr locks' \<longrightarrow>
      map resource_id locks' = map resource_id locks @ rs \<and> granted dlm' = granted dlm @ rs)"
proof (induction rs arbitrary: locks dlm)
  case Nil
  then show ?case by auto
next
  case (Cons r rest)
  let ?req = "\<lparr>resource_id = r, lock_type = Exclusive, holder = getSystemId env,
              acquired_at = now, expires_at = now + 300000, renewable = True\<rparr>"
  obtain o1 d1 where a: "acquire now dlm ?req = (o1, d1)" by (cases "acquire now dlm ?req")
  note g = acquire_granted[OF a]
  show ?case
  proof (cases o1)
    case (Inl e)
    with Cons.prems a g have "outcome = Inl e" "granted dlm' = granted dlm @ take 0 (r # rest)"
      by auto
    then show ?thesis by blast
  next
    case (Inr lock)
    with Cons.prems a have rec: "acquireLocks_loop env now rest (locks @ [lock]) d1 = (outcome, dlm')"
      by simp
    from g Inr have g1: "granted d1 = granted dlm @ [r]" "resource_id lock = r" by simp_all
    from Cons.IH[OF rec] obtain k where k: "k \<le> length rest" "granted dlm' = granted d1 @ take k rest"
      and all: "\<forall>locks'. outcome = Inr locks' \<longrightarrow>
        map resource_id locks' = map resource_id (locks @ [lock]) @ rest \<and> granted dlm' = granted d1 @ rest"
      by blast
    have "Suc k \<le> length (r # rest)" "granted dlm' = granted dlm @ take (Suc k) (r # rest)"
      using k g1 by simp_all
    moreover have "\<forall>locks'. outcome = Inr locks' \<longrightarrow>
      map resource_id locks' = map resource_id locks @ r # rest \<and> granted dlm' = granted dlm @ r # rest"
      using all g1 by simp
    ultimately show ?thesis by blast
  qed
qed

lemma release_granted:
  "release dlm r c = (outcome, dlm') \<Longrightarrow> granted dlm' = granted dlm"
  by (auto simp: release_def split: if_splits)

lemma releaseLocks_granted:
  "releaseLocks locks dlm = (outcome, dlm') \<Longrightarrow> granted dlm' = granted dlm"
proof (induction locks arbitrary: dlm)
  case Nil
  then show ?case by simp
next
  case (Cons lock locks)
  obtain o1 d1 where r: "release dlm (resource_id lock) (holder lock) = (o1, d1)"
    by (cases "release dlm (resource_id lock) (holder lock)")
  with Cons show ?case
    by (cases o1) (auto dest: release_granted)
qed

text \<open>
  Claim C7, as the code has it. \<^verbatim>\<open>acquireLocks\<close> iterates over
  \<^verbatim>\<open>operation.resources\<close> as declared and does not sort it. The claim, that the
  locks are acquired in lexicographic order of the resource ids whatever the order of
  declaration, is false: declared as \<^verbatim>\<open>['b', 'a']\<close> the locks are granted in
  the order b, a; declared as \<^verbatim>\<open>['a', 'b']\<close>, in the order a, b.
\<close>

theorem coordinateOperation_lock_order_counterexample:
  "granted (snd (coordinateOperation (\<lambda>t. None) (\<lambda>op. Inr (0::nat)) (Some ''sys1'') 1000
                   free_locks (operation_on [''b'', ''a'']))) = [''b'', ''a''] \<and>
   granted (snd (coordinateOperation (\<lambda>t. None) (\<lambda>op. Inr (0::nat)) (Some ''sys1'') 1000
                   free_locks (operation_on [''a'', ''b'']))) = [''a'', ''b'']"
  by (simp add: coordinateOperation_def acquireLocks_def acquire_def release_def free_locks_def
        operation_on_def incompatible_def getSystemId_def lease_duration_def Let_def)

text \<open>
  Claim C7, amended. For every coordinated operation, the coordinator acquires the
  exclusive locks on the declared resources in the order of declaration: the resources
  granted during the operation are a prefix of the declared list, and the whole list,
  in its order, when every acquisition succeeds.
\<close>

theorem coordinateOperation_lock_order:
  assumes "coordinateOperation publish executeWithCoordination env now dlm operation = (outcome, dlm')"
  shows "(\<exists>k\<le>length (operation_resources operation).
            granted dlm' = granted dlm @ take k (operation_resources operation)) \<and>
         ((\<exists>locks. fst (acquireLocks env now (operation_resources operation) dlm) = Inr locks) \<longrightarrow>
            granted dlm' = granted dlm @ operation_resources operation)"
proof -
  obtain o1 d1 where a: "acquireLocks_loop env now (operation_resources operation) [] dlm = (o1, d1)"
    by (cases "acquireLocks_loop env now (operation_resources operation) [] dlm")
  note ord = acquireLocks_loop_order[OF a]
  show ?thesis
  proof (cases o1)
    case (Inl e)
    with a assms have "dlm' = d1" by (simp add: coordinateOperation_def acquireLocks_def)
    with ord Inl a show ?thesis by (simp add: acquireLocks_def)
  next
    case (Inr locks)
    obtain o2 d2 where r: "releaseLocks locks d1 = (o2, d2)" by (cases "releaseLocks locks d1")
    with a Inr assms have "dlm' = d2"
      by (cases o2) (simp_all add: coordinateOperation_def acquireLocks_def)
    with releaseLocks_granted[OF r] have "granted dlm' = granted d1" by simp
    with ord Inr a show ?thesis by (auto simp add: acquireLocks_def)
  qed
qed

theorem coordinateOperation_lock_order_witness:
  "granted (snd (coordinateOperation (\<lambda>t. None) (\<lambda>op. Inr (0::nat)) (Some ''sys1'') 1000
                   free_locks (operation_on [''b'', ''a'']))) = [''b'', ''a'']"
  using coordinateOperation_lock_order
          [of "\<lambda>t. None" "\<lambda>op. Inr (0::nat)" "Some ''sys1''" 1000 free_locks
              "operation_on [''b'', ''a'']"
              "fst (coordinateOperation (\<lambda>t. None) (\<lambda>op. Inr (0::nat)) (Some ''sys1'') 1000
                   free_locks (operation_on [''b'', ''a'']))"
              "snd (coordinateOperation (\<lambda>t. None) (\<lambda>op. Inr (0::nat)) (Some ''sys1'') 1000
                   free_locks (operation_on [''b'', ''a'']))"]
  by (simp add: acquireLocks_def acquire_def free_locks_def operation_on_def incompatible_def Let_def)

text \<open>
  Once every lock is acquired, control is inside the \<^verbatim>\<open>try\<close> block, and
  whatever its outcome (completion, an execution that throws, a publication that throws)
  the \<^verbatim>\<open>finally\<close> block releases each acquired lock exactly once: the declared
  resources are distinct, the releases performed are one per resource, and no lock on
  them stays in the table.
\<close>

lemma granted_lock_sel:
  "resource_id (granted_lock env now r) = r"
  "holder (granted_lock env now r) = getSystemId env"
  "expires_at (granted_lock env now r) = now + lease_duration"
  by (simp_all add: granted_lock_def)

lemma acquire_exclusive_success:
  assumes "acquire now dlm \<lparr>resource_id = r, lock_type = Exclusive, holder = getSystemId env,
              acquired_at = now, expires_at = now + 300000, renewable = True\<rparr> = (Inr lock, dlm')"
  shows "lock = granted_lock env now r"
    and "held dlm' = filter (\<lambda>l. resource_id l \<noteq> r) (held dlm) @ [granted_lock env now r]"
    and "released dlm' = released dlm"
    and "\<forall>l \<in> set (held dlm). resource_id l = r \<longrightarrow> expires_at l \<le> now"
proof -
  from assms have free: "\<not> list_ex (\<lambda>l. resource_id l = r \<and> now < expires_at l) (held dlm)"
    by (auto simp: acquire_def incompatible_def Let_def split: if_splits)
  then show exp: "\<forall>l \<in> set (held dlm). resource_id l = r \<longrightarrow> expires_at l \<le> now"
    by (auto simp: list_ex_iff)
  then have "filter (\<lambda>l. \<not> (resource_id l = r \<and> expires_at l \<le> now)) (held dlm) =
             filter (\<lambda>l. resource_id l \<noteq> r) (held dlm)"
    by (intro filter_cong) auto
  with assms show "lock = granted_lock env now r"
    and "held dlm' = filter (\<lambda>l. resource_id l \<noteq> r) (held dlm) @ [granted_lock env now r]"
    and "released dlm' = released dlm"
    by (auto simp: acquire_def incompatible_def Let_def granted_lock_def split: if_splits)
qed

lemma acquire_exclusive_conflict:
  assumes "l \<in> set (held dlm)" and "resource_id l = r" and "now < expires_at l"
  shows "\<exists>e. acquire now dlm \<lparr>resource_id = r, lock_type = Exclusive, holder = c,
              acquired_at = now, expires_at = x, renewable = True\<rparr> = (Inl e, dlm)"
  using assms by (auto simp: acquire_def incompatible_def list_ex_iff)

lemma acquireLocks_loop_conflict:
  assumes "l \<in> set (held dlm)" and "resource_id l \<in> set rs" and "now < expires_at l"
  shows "\<exists>e d. acquireLocks_loop env now rs locks dlm = (Inl e, d)"
  using assms
proof (induction rs arbitrary: locks dlm)
  case Nil
  then show ?case by simp
next
  case (Cons r rest)
  let ?req = "\<lparr>resource_id = r, lock_type = Exclusive, holder = getSystemId env,
              acquired_at = now, expires_at = now + 300000, renewable = True\<rparr>"
  obtain o1 d1 where a: "acquire now dlm ?req = (o1, d1)" by (cases "acquire now dlm ?req")
  show ?case
  proof (cases o1)
    case (Inl e)
    with a show ?thesis by simp
  next
    case (Inr lock)
    note granted = a[unfolded Inr]
    note s = acquire_exclusive_success[OF granted]
    from s(4) Cons.prems have "resource_id l \<noteq> r" by auto
    with Cons.prems have "resource_id l \<in> set rest" and "l \<in> set (held d1)"
      using s(2) by auto
    from Cons.IH[OF this(2) this(1) Cons.prems(3)] a Inr show ?thesis by simp
  qed
qed

lemma acquireLocks_loop_success:
  assumes "acquireLocks_loop env now rs locks dlm = (Inr locks', dlm')"
  shows "locks' = locks @ map (granted_lock env now) rs \<and> distinct rs \<and>
         held dlm' = filter (\<lambda>l. resource_id l \<notin> set rs) (held dlm) @ map (granted_lock env now) rs \<and>
         released dlm' = released dlm"
  using assms
proof (induction rs arbitrary: locks dlm)
  case Nil
  then show ?case by simp
next
  case (Cons r rest)
  let ?req = "\<lparr>resource_id = r, lock_type = Exclusive, holder = getSystemId env,
              acquired_at = now, expires_at = now + 300000, renewable = True\<rparr>"
  obtain o1 d1 where a: "acquire now dlm ?req = (o1, d1)" by (cases "acquire now dlm ?req")
  show ?case
  proof (cases o1)
    case (Inl e)
    with a Cons.prems show ?thesis by simp
  next
    case (Inr lock)
    note granted = a[unfolded Inr]
    note s = acquire_exclusive_success[OF granted]
    from a Inr Cons.prems have rec:
      "acquireLocks_loop env now rest (locks @ [lock]) d1 = (Inr locks', dlm')" by simp
    note ih = Cons.IH[OF rec]
    have live: "granted_lock env now r \<in> set (held d1)"
      "resource_id (granted_lock env now r) = r"
      "now < expires_at (granted_lock env now r)"
      using s(2) by (simp_all add: granted_lock_def lease_duration_def)
    have notin: "r \<notin> set rest"
    proof
      assume "r \<in> set rest"
      with live have "\<exists>e d. acquireLocks_loop env now rest (locks @ [lock]) d1 = (Inl e, d)"
        by (intro acquireLocks_loop_conflict[of "granted_lock env now r"]) simp_all
      with rec show False by simp
    qed
    have "filter (\<lambda>l. resource_id l \<notin> set rest) (held d1) =
          filter (\<lambda>l. resource_id l \<notin> set (r # rest)) (held dlm) @ [granted_lock env now r]"
      using s(2) notin live(2) by (auto intro: filter_cong)
    with ih s notin show ?thesis by simp
  qed
qed

lemma releaseLocks_granted_locks:
  assumes "held dlm = H @ map (granted_lock env now) rs"
      and "distinct rs"
      and "\<forall>l \<in> set H. resource_id l \<notin> set rs"
  shows "releaseLocks (map (granted_lock env now) rs) dlm =
           (Inr (), dlm\<lparr>held := H,
                        released := released dlm @ map (\<lambda>r. (r, getSystemId env)) rs\<rparr>)"
  using assms
proof (induction rs arbitrary: dlm)
  case Nil
  then show ?case by simp
next
  case (Cons r rest)
  let ?d1 = "dlm\<lparr>held := H @ map (granted_lock env now) rest,
                  released := released dlm @ [(r, getSystemId env)]\<rparr>"
  have keepH: "filter (\<lambda>l. \<not> (resource_id l = r \<and> holder l = getSystemId env)) H = H"
    using Cons.prems(3) by (auto intro: filter_True)
  have keepR: "filter (\<lambda>l. \<not> (resource_id l = r \<and> holder l = getSystemId env))
                 (map (granted_lock env now) rest) = map (granted_lock env now) rest"
    using Cons.prems(2) by (auto intro!: filter_True simp: granted_lock_sel)
  have rel: "release dlm r (getSystemId env) = (Inr (), ?d1)"
    using Cons.prems(1) keepH keepR
    by (simp add: release_def granted_lock_sel)
  have "releaseLocks (map (granted_lock env now) rest) ?d1 =
          (Inr (), ?d1\<lparr>held := H,
                        released := released ?d1 @ map (\<lambda>r. (r, getSystemId env)) rest\<rparr>)"
    using Cons.prems by (intro Cons.IH) simp_all
  with rel show ?case by (simp add: granted_lock_sel)
qed

lemma coordinateOperation_releases_inside_try:
  assumes "acquireLocks env now (operation_resources operation) dlm = (Inr locks, dlm1)"
  shows "coordinateOperation publish executeWithCoordination env now dlm operation =
           (coordinate_try publish executeWithCoordination operation,
            dlm1\<lparr>held := filter (\<lambda>l. resource_id l \<notin> set (operation_resources operation)) (held dlm),
                 released := released dlm @
                    map (\<lambda>r. (r, getSystemId env)) (operation_resources operation)\<rparr>) \<and>
         distinct (operation_resources operation)"
proof -
  let ?rs = "operation_resources operation"
  from assms have loop: "acquireLocks_loop env now ?rs [] dlm = (Inr locks, dlm1)"
    by (simp add: acquireLocks_def)
  note s = acquireLocks_loop_success[OF loop]
  from s have locks: "locks = map (granted_lock env now) ?rs" and d: "distinct ?rs"
    and h: "held dlm1 = filter (\<lambda>l. resource_id l \<notin> set ?rs) (held dlm) @ map (granted_lock env now) ?rs"
    and r: "released dlm1 = released dlm" by simp_all
  have "releaseLocks locks dlm1 =
          (Inr (), dlm1\<lparr>held := filter (\<lambda>l. resource_id l \<notin> set ?rs) (held dlm),
                        released := released dlm1 @ map (\<lambda>r. (r, getSystemId env)) ?rs\<rparr>)"
    unfolding locks by (rule releaseLocks_granted_locks[OF h d]) simp
  with assms r d show ?thesis by (simp add: coordinateOperation_def)
qed

text \<open>For instance, when the execution throws:\<close>

lemma coordinateOperation_releases_when_execution_raises:
  "coordinateOperation (\<lambda>t. None) (\<lambda>op. Inl (new_Error ''crash'') :: js_error + nat)
       (Some ''sys1'') 1000 free_locks (operation_on [''A'', ''B'']) =
     (Inl (new_Error ''crash''),
      \<lparr>held = [], granted = [''A'', ''B''], released = [(''A'', ''sys1''), (''B'', ''sys1'')]\<rparr>)"
  by (simp add: coordinateOperation_def acquireLocks_def acquire_def release_def free_locks_def
        operation_on_def incompatible_def getSystemId_def lease_duration_def Let_def coordinate_try_def)

text \<open>
  Claim C5, on the code. Every lock the coordinator acquires should be released exactly
  once on every outcome. The locks are acquired before the \<^verbatim>\<open>try\<close> block,
  so when an acquisition fails part-way the locks acquired before it are not released:
  with resource B held by another system, the operation on A and B fails with the
  conflict on B, the lock on A stays in the lock table, held by this system, and nothing
  was released.
\<close>

theorem coordinateOperation_leaks_lock:
  "coordinateOperation (\<lambda>t. None) (\<lambda>op. Inr (0::nat)) (Some ''sys1'') 1000
       contested_locks (operation_on [''A'', ''B'']) =
     (Inl (JsError ''LockConflictError'' ''B''),
      \<lparr>held = [\<lparr>resource_id = ''B'', lock_type = Exclusive, holder = ''other_system'',
                acquired_at = 0, expires_at = 300000, renewable = True\<rparr>,
               \<lparr>resource_id = ''A'', lock_type = Exclusive, holder = ''sys1'',
                acquired_at = 1000, expires_at = 301000, renewable = True\<rparr>],
       granted = [''A''], released = []\<rparr>)"
  by (simp add: coordinateOperation_def acquireLocks_def acquire_def contested_locks_def
        operation_on_def incompatible_def getSystemId_def lease_duration_def Let_def)

end
